theory Spec2Isabelle
  imports Main
begin

section \<open>stop-server.py: the pod-termination script of the WebLogic operator\<close>

text \<open>
  The script runs under WLST (Jython 2). Everything it does to the outside world is made
  explicit: the environment, the file system and the management primitives (\<open>connect\<close>,
  \<open>domainRuntime\<close>, \<open>queryMBeans\<close>, \<open>getAttribute\<close>, \<open>shutdown\<close>, \<open>nmConnect\<close>,
  \<open>nmKill\<close>) are fields of a \<open>world\<close> that answers each call from the history of events
  so far; every print, sleep and call is appended to that history. A \<open>try/except\<close> is a
  case distinction on an outcome value, and the unbounded \<open>while\<close> loops take a bound on
  the number of iterations (the grace period after which Kubernetes kills the pod).
\<close>

subsection \<open>Values, exceptions, events\<close>

text \<open>An exception object; \<open>print e\<close> shows its message.\<close>

datatype exn = Exn string

text \<open>
  What a statement does: it completes with a value, raises, ends the process with an exit
  status (\<open>sys.exit(n)\<close>, and the WLST command \<open>exit\<close>, which is taken to end the process
  with the status it is given, 0 when it is given none), or is still running when the
  iteration bound is reached.
\<close>

datatype 'a outcome = Val 'a | Raised exn | Exited nat | OutOfFuel

datatype event =
    Print string
  | PrintExn exn
  | Traceback
  | DumpStack
  | Sleep nat
  | FileRead string
  | B64Decode
  | FileWrite string
  | Connect string string string "exn option"
  | DomainRuntime "exn option"
  | QueryMBeans "exn + string list"
  | GetAttribute string "exn + string option"
  | Shutdown string string int string string "exn option"
  | NmConnect string string "exn option"
  | NmKill string "exn option"

type_synonym trace = "event list"

text \<open>A Python value handed to \<open>checkCoherenceClusterExist\<close>: a \<open>str\<close>, or something else.\<close>

datatype pyval = PyNone | PyStr string

subsection \<open>The topology detector\<close>

text \<open>The characters \<open>str.split()\<close> of Python 2 splits at: space, TAB, LF, VT, FF, CR.\<close>

definition is_space :: "char \<Rightarrow> bool" where
  "is_space c = (c = CHR '' '' \<or> c = CHR 0x09 \<or> c = CHR 0x0A \<or> c = CHR 0x0B
                 \<or> c = CHR 0x0C \<or> c = CHR 0x0D)"

text \<open>\<open>s.split()\<close>: the maximal runs of non-whitespace characters, in order.\<close>

fun py_split_acc :: "string \<Rightarrow> string \<Rightarrow> string list" where
  "py_split_acc w [] = (if w = [] then [] else [w])"
| "py_split_acc w (c # cs) =
     (if is_space c then (if w = [] then py_split_acc [] cs else w # py_split_acc [] cs)
      else py_split_acc (w @ [c]) cs)"

definition py_split :: "string \<Rightarrow> string list" where
  "py_split s = py_split_acc [] s"

text \<open>\<open>''.join(xs)\<close>\<close>

definition join_empty :: "string list \<Rightarrow> string" where
  "join_empty xs = concat xs"

definition ELEMENT_NAME :: string where
  "ELEMENT_NAME = ''coherence-cluster-system-resource''"

definition OPEN_TAG :: string where
  "OPEN_TAG = ''<coherence-cluster-system-resource>''"

definition CLOSE_TAG :: string where
  "CLOSE_TAG = ''</coherence-cluster-system-resource>''"

text \<open>A literal of the pattern matches at the head of the text.\<close>

fun starts_with :: "string \<Rightarrow> string \<Rightarrow> bool" where
  "starts_with [] s = True"
| "starts_with (p # ps) [] = False"
| "starts_with (p # ps) (c # cs) = (p = c \<and> starts_with ps cs)"

text \<open>
  \<open>[\s\S]*?\<close> followed by a literal: the lazy quantifier takes as few characters (any
  characters) as possible, so the literal is tried at each position in turn. The result
  is the number of characters consumed, the literal included.
\<close>

fun lazy_any_then :: "string \<Rightarrow> string \<Rightarrow> nat option" where
  "lazy_any_then lit [] = (if starts_with lit [] then Some (length lit) else None)"
| "lazy_any_then lit (c # cs) =
     (if starts_with lit (c # cs) then Some (length lit)
      else map_option Suc (lazy_any_then lit cs))"

text \<open>The whole pattern at the head of the text: the length of the match.\<close>

definition match_here :: "string \<Rightarrow> nat option" where
  "match_here s =
     (if starts_with OPEN_TAG s
      then map_option (\<lambda>k. length OPEN_TAG + k)
             (lazy_any_then CLOSE_TAG (drop (length OPEN_TAG) s))
      else None)"

text \<open>
  \<open>re.search\<close>: the match at the leftmost position that has one; \<open>i\<close> is the position of
  the head of the text. The result is \<open>x.span()\<close>, and \<open>None\<close> when nothing matches.
\<close>

fun re_search_from :: "nat \<Rightarrow> string \<Rightarrow> (nat \<times> nat) option" where
  "re_search_from i [] =
     (case match_here [] of Some k \<Rightarrow> Some (i, i + k) | None \<Rightarrow> None)"
| "re_search_from i (c # cs) =
     (case match_here (c # cs) of Some k \<Rightarrow> Some (i, i + k)
      | None \<Rightarrow> re_search_from (Suc i) cs)"

definition re_search :: "string \<Rightarrow> (nat \<times> nat) option" where
  "re_search s = re_search_from 0 s"

text \<open>
  The body of the \<open>try\<close> of \<open>checkCoherenceClusterExist\<close>. \<open>configData.split()\<close> raises
  (AttributeError) when \<open>configData\<close> is not a string.
\<close>

definition checkCoherenceClusterExist_try :: "pyval \<Rightarrow> exn + bool" where
  "checkCoherenceClusterExist_try configData =
     (case configData of
        PyNone \<Rightarrow> Inl (Exn ''AttributeError'')
      | PyStr d \<Rightarrow>
          (let spacelessData = join_empty (py_split d) in
           case re_search spacelessData of
             None \<Rightarrow> Inr False
           | Some (first', last') \<Rightarrow>
               Inr (int last' - int first' - 5 > 2 * int (length ELEMENT_NAME))))"

definition checkCoherenceClusterExist :: "pyval \<Rightarrow> trace \<Rightarrow> trace \<times> bool outcome" where
  "checkCoherenceClusterExist configData tr =
     (case checkCoherenceClusterExist_try configData of
        Inr b \<Rightarrow> (tr, Val b)
      | Inl e \<Rightarrow>
          (tr @ [Traceback,
                 Print ''Shutdown: Exception processing config data, assume Coherence exists''],
           Val True))"

subsection \<open>The world outside the script\<close>

text \<open>
  Each management primitive answers from the history of events so far, so that a call may
  fail now and succeed later. \<open>None\<close> (or \<open>Inr\<close>) is a normal return, \<open>Some e\<close> (or
  \<open>Inl e\<close>) the exception raised. \<open>int_of_str\<close> is Python's \<open>int()\<close> on a string and
  \<open>base64_decodestring\<close> is \<open>base64.decodestring\<close>.
\<close>

record world =
  os_environ :: "string \<Rightarrow> string option"
  open_read :: "string \<Rightarrow> exn + string"
  open_write :: "string \<Rightarrow> exn option"
  base64_decodestring :: "string \<Rightarrow> exn + string"
  int_of_str :: "string \<Rightarrow> exn + int"
  wlst_connect :: "trace \<Rightarrow> string \<Rightarrow> exn option"
  wlst_domainRuntime :: "trace \<Rightarrow> exn option"
  mbs_queryMBeans :: "trace \<Rightarrow> exn + string list"
  mbs_getAttribute :: "trace \<Rightarrow> string \<Rightarrow> exn + string option"
  wlst_shutdown :: "trace \<Rightarrow> exn option"
  wlst_nmConnect :: "trace \<Rightarrow> exn option"
  wlst_nmKill :: "trace \<Rightarrow> exn option"

text \<open>Sequencing: the next statement runs only when the previous one completed.\<close>

definition and_then ::
  "trace \<times> 'a outcome \<Rightarrow> ('a \<Rightarrow> trace \<Rightarrow> trace \<times> 'b outcome) \<Rightarrow> trace \<times> 'b outcome" where
  "and_then m f =
     (case m of
        (tr, Val x) \<Rightarrow> f x tr
      | (tr, Raised e) \<Rightarrow> (tr, Raised e)
      | (tr, Exited k) \<Rightarrow> (tr, Exited k)
      | (tr, OutOfFuel) \<Rightarrow> (tr, OutOfFuel))"

subsection \<open>getEnvVar\<close>

text \<open>
  The \<open>print\<close> statement of Python 2 writes its comma-separated items with one space
  between them.
\<close>

definition getEnvVar :: "world \<Rightarrow> string \<Rightarrow> trace \<Rightarrow> trace \<times> string outcome" where
  "getEnvVar w var tr =
     (case os_environ w var of
        None \<Rightarrow> (tr @ [Print (''ERROR: Env var '' @ '' '' @ var @ '' '' @ '' not set.'')],
                 Exited 1)
      | Some val \<Rightarrow> (tr, Val val))"

subsection \<open>shutdownUsingNodeManager\<close>

definition shutdownUsingNodeManager ::
  "world \<Rightarrow> string \<Rightarrow> string \<Rightarrow> string \<Rightarrow> trace \<Rightarrow> trace \<times> unit outcome" where
  "shutdownUsingNodeManager w server_name' domainName domainDir tr =
     (let tr1 = tr @ [Print ''Shutdown: Attempting shutdown using NodeManager''];
          failed = [Traceback, Print ''Shutdown: Failed to kill server using NodeManager'']
      in case wlst_nmConnect w tr1 of
           Some e \<Rightarrow> (tr1 @ [NmConnect domainName domainDir (Some e)] @ failed, Raised e)
         | None \<Rightarrow>
             (let tr2 = tr1 @ [NmConnect domainName domainDir None,
                               Print ''Shutdown: Successfully connected to NodeManager'']
              in case wlst_nmKill w tr2 of
                   Some e \<Rightarrow> (tr2 @ [NmKill server_name' (Some e)] @ failed, Raised e)
                 | None \<Rightarrow>
                     (tr2 @ [NmKill server_name' None,
                             Print ''Shutdown: Successfully killed server using NodeManager''],
                      Val ())))"

subsection \<open>doesCoherenceExist\<close>

definition doesCoherenceExist :: "world \<Rightarrow> string \<Rightarrow> trace \<Rightarrow> trace \<times> bool outcome" where
  "doesCoherenceExist w domain_path' tr =
     (let path = domain_path' @ ''/config/config.xml'';
          tr1 = tr @ [FileRead path];
          assume = Print ''Shutdown: Exception reading config.xml, assume Coherence exists''
      in case open_read w path of
           Inl e \<Rightarrow> (tr1 @ [assume], Val True)
         | Inr configData \<Rightarrow>
             (case checkCoherenceClusterExist (PyStr configData) tr1 of
                (tr2, Val b) \<Rightarrow> (tr2, Val b)
              | (tr2, Raised e) \<Rightarrow> (tr2 @ [assume], Val True)
              | (tr2, Exited k) \<Rightarrow> (tr2, Exited k)
              | (tr2, OutOfFuel) \<Rightarrow> (tr2, OutOfFuel)))"

subsection \<open>waitUntilServiceSafeToShutdown\<close>

text \<open>
  The \<open>while (True)\<close> loop of the function; \<open>n\<close> bounds its iterations. An exception of
  \<open>getAttribute\<close> is caught inside the loop, which then goes round again.
\<close>

fun service_loop :: "nat \<Rightarrow> world \<Rightarrow> string \<Rightarrow> trace \<Rightarrow> trace \<times> unit outcome" where
  "service_loop 0 w objectName tr = (tr, OutOfFuel)"
| "service_loop (Suc n) w objectName tr =
     (case mbs_getAttribute w tr objectName of
        Inl e \<Rightarrow>
          service_loop n w objectName
            (tr @ [GetAttribute objectName (Inl e),
                   Print ''Shutdown: An exception occurred getting Coherence MBeans, staying in loop checking for safe'',
                   Traceback, DumpStack, Sleep 10])
      | Inr None \<Rightarrow>
          (tr @ [GetAttribute objectName (Inr None),
                 Print ''Shutdown: None returned for Coherence HAStatus''], Val ())
      | Inr (Some status) \<Rightarrow>
          (let tr1 = tr @ [GetAttribute objectName (Inr (Some status)),
                           Print (''Shutdown: Coherence HAStatus is '' @ status)]
           in if status \<noteq> ''ENDANGERED'' then (tr1, Val ())
              else service_loop n w objectName
                     (tr1 @ [Print ''Shutdown: Waiting until it is safe to shutdown Coherence server ...'',
                             Sleep 5])))"

definition waitUntilServiceSafeToShutdown ::
  "nat \<Rightarrow> world \<Rightarrow> string \<Rightarrow> trace \<Rightarrow> trace \<times> unit outcome" where
  "waitUntilServiceSafeToShutdown n w objectName tr =
     service_loop n w objectName
       (tr @ [Print (''Shutdown: checking Coherence service '' @ objectName)])"

subsection \<open>waitUntilCoherenceSafe\<close>

text \<open>\<open>str(n)\<close> for a length.\<close>

fun str_nat :: "nat \<Rightarrow> string" where
  "str_nat n =
     (if n < 10 then [char_of (48 + n)]
      else str_nat (n div 10) @ [char_of (48 + n mod 10)])"

text \<open>\<open>for serviceBean in beans\<close>; a bean is represented by its object name.\<close>

fun for_serviceBean :: "nat \<Rightarrow> world \<Rightarrow> string list \<Rightarrow> trace \<Rightarrow> trace \<times> unit outcome" where
  "for_serviceBean n w [] tr = (tr, Val ())"
| "for_serviceBean n w (objectName # beans) tr =
     and_then (waitUntilServiceSafeToShutdown n w objectName tr)
       (\<lambda>_. for_serviceBean n w beans)"

definition SAFE_MSG :: string where
  "SAFE_MSG = ''Shutdown: It is safe to shutdown Coherence''"

definition retrying :: "event list" where
  "retrying =
     [Print ''Shutdown: Exception checking a service Coherence HAStatus, retrying...'',
      Traceback, DumpStack, Sleep 10]"

text \<open>The \<open>while (not done)\<close> loop, with the local variable \<open>warnSleep\<close>.\<close>

fun coherence_loop :: "nat \<Rightarrow> world \<Rightarrow> bool \<Rightarrow> trace \<Rightarrow> trace \<times> unit outcome" where
  "coherence_loop 0 w warnSleep tr = (tr, OutOfFuel)"
| "coherence_loop (Suc n) w warnSleep tr =
     (case mbs_queryMBeans w tr of
        Inl e \<Rightarrow> coherence_loop n w warnSleep (tr @ [QueryMBeans (Inl e)] @ retrying)
      | Inr beans \<Rightarrow>
          (let tr1 = tr @ [QueryMBeans (Inr beans)] in
           if length beans = 0
           then coherence_loop n w False
                  (tr1 @ (if warnSleep
                          then [Print ''Shutdown: Waiting until Coherence MBeans available... '']
                          else []) @ [Sleep 1])
           else (case for_serviceBean n w beans
                        (tr1 @ [Print (''Shutdown: Coherence service bean count ''
                                       @ str_nat (length beans))]) of
                   (tr2, Val _) \<Rightarrow> (tr2 @ [Print SAFE_MSG], Val ())
                 | (tr2, Raised e) \<Rightarrow> coherence_loop n w warnSleep (tr2 @ retrying)
                 | (tr2, Exited k) \<Rightarrow> (tr2, Exited k)
                 | (tr2, OutOfFuel) \<Rightarrow> (tr2, OutOfFuel))))"

definition waitUntilCoherenceSafe :: "nat \<Rightarrow> world \<Rightarrow> trace \<Rightarrow> trace \<times> unit outcome" where
  "waitUntilCoherenceSafe n w tr =
     (let tr1 = tr @ [Print ''Shutdown: getting all service Coherence MBeans''] in
      case wlst_domainRuntime w tr1 of
        Some e \<Rightarrow> (tr1 @ [DomainRuntime (Some e)], Raised e)
      | None \<Rightarrow> coherence_loop n w True (tr1 @ [DomainRuntime None]))"

subsection \<open>The main script\<close>

record config =
  domain_uid :: string
  admin_name :: string
  server_name :: string
  domain_name :: string
  domain_path :: string
  service_name :: string
  local_admin_port :: string
  local_admin_protocol :: string
  timeout :: string
  ignore_sessions :: string
  wait_for_all_sessions :: string
  shutdown_type :: string
  admin_port :: string
  admin_host :: string
  force :: string
  connect_url :: string
  cohExists :: bool

text \<open>The environment variables, in the order the script loads them.\<close>

definition required_vars :: "string list" where
  "required_vars =
     [''DOMAIN_UID'', ''ADMIN_NAME'', ''SERVER_NAME'', ''DOMAIN_NAME'', ''DOMAIN_HOME'',
      ''SERVICE_NAME'', ''SHUTDOWN_PORT_ARG'', ''SHUTDOWN_PROTOCOL_ARG'',
      ''SHUTDOWN_TIMEOUT_ARG'', ''SHUTDOWN_IGNORE_SESSIONS_ARG'',
      ''SHUTDOWN_WAIT_FOR_ALL_SESSIONS_ARG'', ''SHUTDOWN_TYPE_ARG'', ''ADMIN_PORT'',
      ''AS_SERVICE_NAME'']"

fun getEnvVars :: "world \<Rightarrow> string list \<Rightarrow> trace \<Rightarrow> trace \<times> string list outcome" where
  "getEnvVars w [] tr = (tr, Val [])"
| "getEnvVars w (var # vars) tr =
     and_then (getEnvVar w var tr)
       (\<lambda>val tr1. and_then (getEnvVars w vars tr1) (\<lambda>vals tr2. (tr2, Val (val # vals))))"

text \<open>\<open>str.lower()\<close> on ASCII.\<close>

definition lower_char :: "char \<Rightarrow> char" where
  "lower_char c =
     (let k = (of_char c :: nat) in if 65 \<le> k \<and> k \<le> 90 then char_of (k + 32) else c)"

definition lower :: "string \<Rightarrow> string" where
  "lower s = map lower_char s"

text \<open>
  The assignments up to the connect loop, for the values of the fourteen variables:
  \<open>force\<close> from the shutdown type, the key file decoded into \<open>/tmp\<close>, the topology, the
  target. An exception here is caught by nobody.
\<close>

definition KEY_FILE :: string where
  "KEY_FILE = ''/weblogic-operator/introspector/userKeyNodeManager.secure''"

definition KEY_BIN :: string where
  "KEY_BIN = ''/tmp/userKeyNodeManager.secure.bin''"

definition convert_key :: "world \<Rightarrow> trace \<Rightarrow> trace \<times> unit outcome" where
  "convert_key w tr =
     (case open_read w KEY_FILE of
        Inl e \<Rightarrow> (tr @ [FileRead KEY_FILE], Raised e)
      | Inr contents \<Rightarrow>
          (case base64_decodestring w contents of
             Inl e \<Rightarrow> (tr @ [FileRead KEY_FILE, B64Decode], Raised e)
           | Inr decoded \<Rightarrow>
               (case open_write w KEY_BIN of
                  Some e \<Rightarrow> (tr @ [FileRead KEY_FILE, B64Decode, FileWrite KEY_BIN], Raised e)
                | None \<Rightarrow> (tr @ [FileRead KEY_FILE, B64Decode, FileWrite KEY_BIN], Val ()))))"

definition select_target :: "config \<Rightarrow> bool \<Rightarrow> trace \<Rightarrow> trace \<times> config outcome" where
  "select_target c cohExists' tr =
     (if cohExists'
      then (tr @ [Print ''Shutdown: Coherence cluster exists''],
            Val (c\<lparr>cohExists := True,
                   connect_url := local_admin_protocol c @ ''://'' @ admin_host c @ '':''
                                  @ admin_port c,
                   force := (if admin_name c = server_name c then ''true'' else force c)\<rparr>))
      else (tr @ [Print ''Shutdown: Coherence cluster does not exist''],
            Val (c\<lparr>cohExists := False,
                   connect_url := local_admin_protocol c @ ''://'' @ service_name c @ '':''
                                  @ local_admin_port c\<rparr>)))"

fun initialise :: "world \<Rightarrow> string list \<Rightarrow> trace \<Rightarrow> trace \<times> config outcome" where
  "initialise w [v1, v2, v3, v4, v5, v6, v7, v8, v9, v10, v11, v12, v13, v14] tr =
     (let c = \<lparr>domain_uid = v1, admin_name = v2, server_name = v3, domain_name = v4,
               domain_path = v5, service_name = v6, local_admin_port = v7,
               local_admin_protocol = v8, timeout = v9, ignore_sessions = v10,
               wait_for_all_sessions = v11, shutdown_type = v12, admin_port = v13,
               admin_host = v14,
               force = (if lower v12 = ''forced'' then ''true'' else ''false''),
               connect_url = [], cohExists = False\<rparr>
      in and_then (convert_key w tr)
           (\<lambda>_ tr1. and_then (doesCoherenceExist w (domain_path c) tr1) (select_target c)))"
| "initialise w vals tr = (tr, Raised (Exn ''ValueError''))"

text \<open>
  The body of the \<open>try\<close> in the connect loop. It returns the value of \<open>cohSafe\<close> as well,
  which the handler reads.
\<close>

definition call_shutdown :: "world \<Rightarrow> config \<Rightarrow> trace \<Rightarrow> trace \<times> unit outcome" where
  "call_shutdown w c tr =
     (let tr1 = tr @ [Print (''Shutdown: Calling server shutdown with force = '' @ force c)] in
      case int_of_str w (timeout c) of
        Inl e \<Rightarrow> (tr1, Raised e)
      | Inr timeOut \<Rightarrow>
          (let r = wlst_shutdown w tr1;
               tr2 = tr1 @ [Shutdown (server_name c) (ignore_sessions c) timeOut (force c)
                              (wait_for_all_sessions c) r]
           in case r of
                Some e \<Rightarrow> (tr2, Raised e)
              | None \<Rightarrow> (tr2 @ [Print ''Shutdown: Successfully shutdown the server''], Val ())))"

definition connect_try ::
  "nat \<Rightarrow> world \<Rightarrow> config \<Rightarrow> bool \<Rightarrow> trace \<Rightarrow> trace \<times> bool \<times> unit outcome" where
  "connect_try n w c cohSafe tr =
     (let tr1 = tr @ [Print (''Shutdown: Connecting to server at '' @ connect_url c)];
          r = wlst_connect w tr1 (connect_url c);
          tr2 = tr1 @ [Connect (connect_url c) (domain_name c) (domain_path c) r]
      in case r of
           Some e \<Rightarrow> (tr2, cohSafe, Raised e)
         | None \<Rightarrow>
             (let tr3 = tr2 @ [Print ''Shutdown: Successfully connected to server''] in
              if cohExists c
              then (case waitUntilCoherenceSafe n w tr3 of
                      (tr4, Val _) \<Rightarrow> (let (tr5, out) = call_shutdown w c tr4 in (tr5, True, out))
                    | (tr4, Raised e) \<Rightarrow> (tr4, cohSafe, Raised e)
                    | (tr4, Exited k) \<Rightarrow> (tr4, cohSafe, Exited k)
                    | (tr4, OutOfFuel) \<Rightarrow> (tr4, cohSafe, OutOfFuel))
              else (let (tr5, out) = call_shutdown w c tr3 in (tr5, cohSafe, out))))"

text \<open>
  The \<open>while (stayInConnectLoop)\<close> loop with its handler; the arguments after the
  configuration are \<open>stayInConnectLoop\<close> and \<open>cohSafe\<close>. The loop condition is tested
  before the iteration bound.
\<close>

fun connect_loop ::
  "nat \<Rightarrow> world \<Rightarrow> config \<Rightarrow> bool \<Rightarrow> bool \<Rightarrow> trace \<Rightarrow> trace \<times> unit outcome" where
  "connect_loop n w c False cohSafe tr = (tr, Val ())"
| "connect_loop 0 w c True cohSafe tr = (tr, OutOfFuel)"
| "connect_loop (Suc n) w c True cohSafe tr =
     (case connect_try n w c cohSafe tr of
        (tr1, cohSafe1, Val _) \<Rightarrow> connect_loop n w c False cohSafe1 tr1
      | (tr1, cohSafe1, Raised e) \<Rightarrow>
          (let tr2 = tr1 @ [PrintExn e, Print ''Shutdown: Exception in connect or shutdown''] in
           if cohExists c \<and> \<not> cohSafe1
           then connect_loop n w c True cohSafe1
                  (tr2 @ [Print ''Shutdown: Coherence not safe to shutdown. Sleeping before connect retry ...'',
                          Sleep 10])
           else (case shutdownUsingNodeManager w (server_name c) (domain_name c)
                        (domain_path c) tr2 of
                   (tr3, Val _) \<Rightarrow> (tr3, Exited 0)
                 | (tr3, Raised e') \<Rightarrow> (tr3, Exited 2)
                 | (tr3, Exited k) \<Rightarrow> (tr3, Exited k)
                 | (tr3, OutOfFuel) \<Rightarrow> (tr3, OutOfFuel)))
      | (tr1, cohSafe1, Exited k) \<Rightarrow> (tr1, Exited k)
      | (tr1, cohSafe1, OutOfFuel) \<Rightarrow> (tr1, OutOfFuel))"

text \<open>The script up to the connect loop.\<close>

definition startup :: "world \<Rightarrow> trace \<times> config outcome" where
  "startup w =
     and_then (getEnvVars w required_vars [Print ''Shutdown: main script'']) (initialise w)"

text \<open>The whole script: its output and calls, and how the process ends.\<close>

definition main :: "nat \<Rightarrow> world \<Rightarrow> trace \<times> unit outcome" where
  "main n w =
     and_then (startup w)
       (\<lambda>c tr1. and_then (connect_loop n w c True False tr1) (\<lambda>_ tr2. (tr2, Exited 0)))"

subsection \<open>Traces\<close>

text \<open>
  \<open>emits P tr tr'\<close>: the trace \<open>tr'\<close> continues \<open>tr\<close>, and every event added satisfies
  \<open>P\<close>.
\<close>

definition emits :: "(event \<Rightarrow> bool) \<Rightarrow> trace \<Rightarrow> trace \<Rightarrow> bool" where
  "emits P tr tr' = (\<exists>es. tr' = tr @ es \<and> list_all P es)"

text \<open>The events of the safety wait: output, sleeps and the MBean queries.\<close>

fun is_poll :: "event \<Rightarrow> bool" where
  "is_poll (Print m) = True"
| "is_poll Traceback = True"
| "is_poll DumpStack = True"
| "is_poll (Sleep k) = True"
| "is_poll (DomainRuntime r) = True"
| "is_poll (QueryMBeans r) = True"
| "is_poll (GetAttribute b r) = True"
| "is_poll e = False"

subsection \<open>Example worlds\<close>

text \<open>
  Every variable is set (to its own name, the shutdown timeout to \<open>30\<close>), \<open>int()\<close>
  reads \<open>30\<close> and raises on any other string, no file can be read, every management
  call succeeds, no MBean is found.
\<close>

definition world0 :: world where
  "world0 =
     \<lparr>os_environ = (\<lambda>v. if v = ''SHUTDOWN_TIMEOUT_ARG'' then Some ''30'' else Some v),
      open_read = (\<lambda>p. Inl (Exn ''IOError'')),
      open_write = (\<lambda>p. None),
      base64_decodestring = (\<lambda>s. Inr s),
      int_of_str = (\<lambda>s. if s = ''30'' then Inr 30 else Inl (Exn ''ValueError'')),
      wlst_connect = (\<lambda>h u. None),
      wlst_domainRuntime = (\<lambda>h. None),
      mbs_queryMBeans = (\<lambda>h. Inr []),
      mbs_getAttribute = (\<lambda>h b. Inr None),
      wlst_shutdown = (\<lambda>h. None),
      wlst_nmConnect = (\<lambda>h. None),
      wlst_nmKill = (\<lambda>h. None)\<rparr>"

subsection \<open>Example configuration documents\<close>

text \<open>Two elements, the first one empty; and a document with one element.\<close>

definition two_elements :: string where
  "two_elements =
     ''<coherence-cluster-system-resource></coherence-cluster-system-resource><coherence-cluster-system-resource>x</coherence-cluster-system-resource>''"

definition one_element :: string where
  "one_element =
     ''<d> <coherence-cluster-system-resource> x </coherence-cluster-system-resource> </d>''"

subsection \<open>Environments with unset variables\<close>

definition world_two_unset :: world where
  "world_two_unset =
     world0\<lparr>os_environ :=
       (\<lambda>v. if v = ''DOMAIN_UID'' \<or> v = ''ADMIN_NAME'' then None else Some v)\<rparr>"

definition world_no_timeout :: world where
  "world_no_timeout =
     world0\<lparr>os_environ := (\<lambda>v. if v = ''SHUTDOWN_TIMEOUT_ARG'' then None else Some v)\<rparr>"

fun is_Print :: "event \<Rightarrow> bool" where
  "is_Print (Print m) = True"
| "is_Print e = False"

subsection \<open>Polling one service; worlds with a failing query\<close>

text \<open>
  \<open>polls_service b\<close>: output, sleeps and health queries of the service \<open>b\<close> only.
  In \<open>world_flaky\<close> the first health query of \<open>s2\<close> raises; in \<open>world_query_fails\<close> the
  first enumeration raises. \<open>staying\<close> is what the handler inside
  \<open>waitUntilServiceSafeToShutdown\<close> does.
\<close>

fun polls_service :: "string \<Rightarrow> event \<Rightarrow> bool" where
  "polls_service b (Print m) = True"
| "polls_service b Traceback = True"
| "polls_service b DumpStack = True"
| "polls_service b (Sleep k) = True"
| "polls_service b (GetAttribute b' r) = (b' = b)"
| "polls_service b e = False"

definition world_flaky :: world where
  "world_flaky =
     world0\<lparr>mbs_queryMBeans := (\<lambda>h. Inr [''s1'', ''s2'']),
            mbs_getAttribute :=
              (\<lambda>h b. if b = ''s2'' \<and> GetAttribute ''s2'' (Inl (Exn ''timeout'')) \<notin> set h
                     then Inl (Exn ''timeout'') else Inr (Some ''NODE-SAFE''))\<rparr>"

definition world_query_fails :: world where
  "world_query_fails =
     world0\<lparr>mbs_queryMBeans :=
       (\<lambda>h. if QueryMBeans (Inl (Exn ''timeout'')) \<in> set h then Inr [''s1'']
            else Inl (Exn ''timeout''))\<rparr>"

definition staying :: "event list" where
  "staying =
     [Print ''Shutdown: An exception occurred getting Coherence MBeans, staying in loop checking for safe'',
      Traceback, DumpStack, Sleep 10]"

subsection \<open>Events of the start-up; the target of the calls\<close>

text \<open>
  \<open>is_prep\<close>: what the script does before the connect loop. \<open>uses_target c\<close>: a
  \<open>connect\<close> goes to the URL of \<open>c\<close>, a \<open>shutdown\<close> names the server of \<open>c\<close> with the
  force flag of \<open>c\<close>.
\<close>

fun is_prep :: "event \<Rightarrow> bool" where
  "is_prep (Print m) = True"
| "is_prep Traceback = True"
| "is_prep (FileRead p) = True"
| "is_prep B64Decode = True"
| "is_prep (FileWrite p) = True"
| "is_prep e = False"

fun uses_target :: "config \<Rightarrow> event \<Rightarrow> bool" where
  "uses_target c (Connect url dn dd r) = (url = connect_url c)"
| "uses_target c (Shutdown name ign t f wfa r) = (name = server_name c \<and> f = force c)"
| "uses_target c e = True"

subsection \<open>Two domains\<close>

text \<open>
  \<open>world_admin\<close>: a domain with a Coherence cluster, the server stopped is the admin
  server, the shutdown type is \<open>Graceful\<close>, one service is found. \<open>world_plain\<close>: a
  domain without Coherence. The shutdown timeout is \<open>30\<close>; the other variables have
  their own names as values.
\<close>

definition world_admin :: world where
  "world_admin =
     world0\<lparr>os_environ :=
              (\<lambda>v. if v = ''ADMIN_NAME'' \<or> v = ''SERVER_NAME'' then Some ''admin-server''
                   else if v = ''SHUTDOWN_TYPE_ARG'' then Some ''Graceful''
                   else os_environ world0 v),
            open_read :=
              (\<lambda>p. if p = KEY_FILE then Inr ''a2V5''
                   else if p = ''DOMAIN_HOME/config/config.xml'' then Inr one_element
                   else Inl (Exn ''IOError'')),
            mbs_queryMBeans := (\<lambda>h. Inr [''s1''])\<rparr>"

definition world_plain :: world where
  "world_plain =
     world0\<lparr>open_read :=
              (\<lambda>p. if p = KEY_FILE then Inr ''a2V5''
                   else if p = ''DOMAIN_HOME/config/config.xml'' then Inr ''<d> </d>''
                   else Inl (Exn ''IOError''))\<rparr>"

definition cfg_admin :: config where
  "cfg_admin =
     \<lparr>domain_uid = ''DOMAIN_UID'', admin_name = ''admin-server'',
      server_name = ''admin-server'', domain_name = ''DOMAIN_NAME'',
      domain_path = ''DOMAIN_HOME'', service_name = ''SERVICE_NAME'',
      local_admin_port = ''SHUTDOWN_PORT_ARG'',
      local_admin_protocol = ''SHUTDOWN_PROTOCOL_ARG'',
      timeout = ''30'',
      ignore_sessions = ''SHUTDOWN_IGNORE_SESSIONS_ARG'',
      wait_for_all_sessions = ''SHUTDOWN_WAIT_FOR_ALL_SESSIONS_ARG'',
      shutdown_type = ''Graceful'', admin_port = ''ADMIN_PORT'',
      admin_host = ''AS_SERVICE_NAME'', force = ''true'',
      connect_url = ''SHUTDOWN_PROTOCOL_ARG://AS_SERVICE_NAME:ADMIN_PORT'',
      cohExists = True\<rparr>"

definition cfg_plain :: config where
  "cfg_plain =
     \<lparr>domain_uid = ''DOMAIN_UID'', admin_name = ''ADMIN_NAME'',
      server_name = ''SERVER_NAME'', domain_name = ''DOMAIN_NAME'',
      domain_path = ''DOMAIN_HOME'', service_name = ''SERVICE_NAME'',
      local_admin_port = ''SHUTDOWN_PORT_ARG'',
      local_admin_protocol = ''SHUTDOWN_PROTOCOL_ARG'',
      timeout = ''30'',
      ignore_sessions = ''SHUTDOWN_IGNORE_SESSIONS_ARG'',
      wait_for_all_sessions = ''SHUTDOWN_WAIT_FOR_ALL_SESSIONS_ARG'',
      shutdown_type = ''SHUTDOWN_TYPE_ARG'', admin_port = ''ADMIN_PORT'',
      admin_host = ''AS_SERVICE_NAME'', force = ''false'',
      connect_url = ''SHUTDOWN_PROTOCOL_ARG://SERVICE_NAME:SHUTDOWN_PORT_ARG'',
      cohExists = False\<rparr>"

definition startup_events :: "event list" where
  "startup_events =
     [Print ''Shutdown: main script'',
      FileRead ''/weblogic-operator/introspector/userKeyNodeManager.secure'',
      B64Decode, FileWrite ''/tmp/userKeyNodeManager.secure.bin'',
      FileRead ''DOMAIN_HOME/config/config.xml'']"

subsection \<open>One attempt of the connect loop\<close>

text \<open>
  The events of the steps of one attempt (\<open>connecting\<close>, \<open>connected\<close>, \<open>calling\<close>,
  \<open>shutdown_call\<close>), of the handler (\<open>caught\<close>, \<open>sleeping\<close>) and of the fallback
  (\<open>nm_events\<close>). \<open>wait_result\<close>: the safety wait added poll events only, the last of
  them the message that Coherence is safe when it returned. \<open>approach c cs pre cs'\<close>:
  \<open>pre\<close> is what an attempt does up to the shutdown call and \<open>cs'\<close> the value of
  \<open>cohSafe\<close> there. \<open>attempt_failed c cs a cs'\<close>: \<open>a\<close> is an attempt that raised.
  \<open>is_stopped\<close>: a call that stopped the server; \<open>nm_failed\<close>: a NodeManager call that
  raised.
\<close>

definition connecting :: "config \<Rightarrow> exn option \<Rightarrow> event list" where
  "connecting c r =
     [Print (''Shutdown: Connecting to server at '' @ connect_url c),
      Connect (connect_url c) (domain_name c) (domain_path c) r]"

definition connected :: "config \<Rightarrow> event list" where
  "connected c = connecting c None @ [Print ''Shutdown: Successfully connected to server'']"

definition calling :: "config \<Rightarrow> event list" where
  "calling c = [Print (''Shutdown: Calling server shutdown with force = '' @ force c)]"

definition shutdown_call :: "config \<Rightarrow> int \<Rightarrow> exn option \<Rightarrow> event" where
  "shutdown_call c t r =
     Shutdown (server_name c) (ignore_sessions c) t (force c) (wait_for_all_sessions c) r"

definition wait_result :: "trace \<Rightarrow> trace \<Rightarrow> unit outcome \<Rightarrow> bool" where
  "wait_result tr tr' out =
     (\<exists>es. tr' = tr @ es \<and> list_all is_poll es
        \<and> (out = Val () \<longrightarrow> (\<exists>es'. es = es' @ [Print SAFE_MSG])))"

definition caught :: "exn \<Rightarrow> event list" where
  "caught e = [PrintExn e, Print ''Shutdown: Exception in connect or shutdown'']"

definition sleeping :: "event list" where
  "sleeping =
     [Print ''Shutdown: Coherence not safe to shutdown. Sleeping before connect retry ...'',
      Sleep 10]"

definition approach :: "config \<Rightarrow> bool \<Rightarrow> event list \<Rightarrow> bool \<Rightarrow> bool" where
  "approach c cs pre cs' =
     (if cohExists c
      then cs' \<and> (\<exists>es. list_all is_poll es \<and> pre = connected c @ es @ [Print SAFE_MSG])
      else cs' = cs \<and> pre = connected c)"

definition nm_events :: "config \<Rightarrow> exn option \<Rightarrow> exn option \<Rightarrow> event list" where
  "nm_events c r1 r2 =
     Print ''Shutdown: Attempting shutdown using NodeManager''
     # NmConnect (domain_name c) (domain_path c) r1
     # (case r1 of
          Some e \<Rightarrow> [Traceback, Print ''Shutdown: Failed to kill server using NodeManager'']
        | None \<Rightarrow>
            Print ''Shutdown: Successfully connected to NodeManager''
            # NmKill (server_name c) r2
            # (case r2 of
                 Some e \<Rightarrow> [Traceback, Print ''Shutdown: Failed to kill server using NodeManager'']
               | None \<Rightarrow> [Print ''Shutdown: Successfully killed server using NodeManager'']))"

definition attempt_failed :: "config \<Rightarrow> bool \<Rightarrow> event list \<Rightarrow> bool \<Rightarrow> bool" where
  "attempt_failed c cs a cs' =
     ((\<exists>e. a = connecting c (Some e) \<and> cs' = cs)
      \<or> (cohExists c \<and> cs' = cs \<and> (\<exists>es. list_all is_poll es \<and> a = connected c @ es))
      \<or> (\<exists>pre. approach c cs pre cs'
            \<and> (a = pre @ calling c
                \<or> (\<exists>t e. a = pre @ calling c @ [shutdown_call c t (Some e)]))))"

fun is_stopped :: "event \<Rightarrow> bool" where
  "is_stopped (Shutdown name ign t f wfa None) = True"
| "is_stopped (NmKill name None) = True"
| "is_stopped e = False"

fun nm_failed :: "event \<Rightarrow> bool" where
  "nm_failed (NmConnect dn dd (Some e)) = True"
| "nm_failed (NmKill name (Some e)) = True"
| "nm_failed e = False"

fun is_NmConnect :: "event \<Rightarrow> bool" where
  "is_NmConnect (NmConnect dn dd r) = True"
| "is_NmConnect e = False"

fun no_stop :: "event \<Rightarrow> bool" where
  "no_stop (Shutdown name ign t f wfa None) = False"
| "no_stop (NmConnect dn dd r) = False"
| "no_stop (NmKill name r) = False"
| "no_stop e = True"

definition verdict :: "trace \<Rightarrow> unit outcome \<Rightarrow> bool" where
  "verdict tr out =
     ((list_ex is_stopped tr \<longrightarrow> out = Val () \<or> out = Exited 0)
      \<and> (list_ex nm_failed tr \<longrightarrow> out = Exited 2)
      \<and> (list_ex is_NmConnect tr \<longrightarrow> out = Exited 0 \<or> out = Exited 2))"

definition world_refused :: world where
  "world_refused = world_plain\<lparr>wlst_connect := (\<lambda>h url. Some (Exn ''refused''))\<rparr>"

definition world_dead :: world where
  "world_dead = world_refused\<lparr>wlst_nmKill := (\<lambda>h. Some (Exn ''no such server''))\<rparr>"

subsection \<open>Shutdown calls guarded by the safety wait\<close>

text \<open>
  \<open>shutdown_guarded s tr\<close> reads a trace from the left with a flag, \<open>s\<close> at the start:
  a \<open>connect\<close> clears the flag, the message that Coherence is safe sets it, and every
  \<open>shutdown\<close> call must find it set.
\<close>

fun is_Shutdown :: "event \<Rightarrow> bool" where
  "is_Shutdown (Shutdown name ign t f wfa r) = True"
| "is_Shutdown e = False"

fun guard_step :: "bool \<Rightarrow> event \<Rightarrow> bool" where
  "guard_step s (Connect url dn dd r) = False"
| "guard_step s (Print m) = (s \<or> m = SAFE_MSG)"
| "guard_step s e = s"

fun shutdown_guarded :: "bool \<Rightarrow> trace \<Rightarrow> bool" where
  "shutdown_guarded s [] = True"
| "shutdown_guarded s (e # es) = ((is_Shutdown e \<longrightarrow> s) \<and> shutdown_guarded (guard_step s e) es)"

subsection \<open>Retrying while Coherence is not safe\<close>

text \<open>
  \<open>fallback_after_safe s tr\<close> reads a trace from the left with a flag, \<open>s\<close> at the start:
  the message that Coherence is safe sets the flag, and every \<open>nmConnect\<close> must find it
  set. In \<open>world_down\<close> every \<open>connect\<close> is refused.
\<close>

fun is_Connect :: "event \<Rightarrow> bool" where
  "is_Connect (Connect url dn dd r) = True"
| "is_Connect e = False"

fun safety_seen :: "bool \<Rightarrow> event \<Rightarrow> bool" where
  "safety_seen s e = (s \<or> e = Print SAFE_MSG)"

fun fallback_after_safe :: "bool \<Rightarrow> trace \<Rightarrow> bool" where
  "fallback_after_safe s [] = True"
| "fallback_after_safe s (e # es) =
     ((is_NmConnect e \<longrightarrow> s) \<and> fallback_after_safe (safety_seen s e) es)"

definition world_down :: world where
  "world_down = world_admin\<lparr>wlst_connect := (\<lambda>h url. Some (Exn ''refused''))\<rparr>"

subsection \<open>The fallback ends the run\<close>

text \<open>
  \<open>graceful_call\<close>: a \<open>connect\<close>, a \<open>shutdown\<close> or another \<open>nmConnect\<close>.
  \<open>fallback_final tr\<close>: no such call follows an \<open>nmConnect\<close> in \<open>tr\<close>. In \<open>world_stuck\<close>
  every \<open>shutdown\<close> call raises.
\<close>

fun graceful_call :: "event \<Rightarrow> bool" where
  "graceful_call (Connect url dn dd r) = True"
| "graceful_call (Shutdown name ign t f wfa r) = True"
| "graceful_call (NmConnect dn dd r) = True"
| "graceful_call e = False"

fun fallback_final :: "trace \<Rightarrow> bool" where
  "fallback_final [] = True"
| "fallback_final (e # es) =
     ((is_NmConnect e \<longrightarrow> \<not> list_ex graceful_call es) \<and> fallback_final es)"

definition world_stuck :: world where
  "world_stuck = world_admin\<lparr>wlst_shutdown := (\<lambda>h. Some (Exn ''stuck''))\<rparr>"

subsection \<open>The pass after which the safety wait returns\<close>

text \<open>
  \<open>not_endangered\<close>: a health query that returned \<open>None\<close> or a status other than
  \<open>ENDANGERED\<close>. \<open>last_obs b es\<close>: the most recent answer to a health query of the
  service \<open>b\<close> in \<open>es\<close>. \<open>empty_or_failed\<close>: anything but an enumeration that found a
  service. \<open>after_safe_pass tr tr'\<close>: \<open>tr'\<close> continues \<open>tr\<close> and ends with an enumeration
  that found services, the polls of that pass, in which the most recent observation of
  every enumerated service is not \<open>ENDANGERED\<close>, and the message that Coherence is safe;
  before that enumeration every enumeration raised or found nothing. \<open>settles_by k w\<close>:
  once the history has \<open>k\<close> events, every enumeration finds a service and no health
  query answers \<open>ENDANGERED\<close> or raises. \<open>never_safe w\<close>: every health query answers
  \<open>ENDANGERED\<close>. The histories stand for time: in \<open>world_settling\<close> the services appear
  after three events and are safe after ten.
\<close>

fun not_endangered :: "exn + string option \<Rightarrow> bool" where
  "not_endangered (Inl e) = False"
| "not_endangered (Inr None) = True"
| "not_endangered (Inr (Some status)) = (status \<noteq> ''ENDANGERED'')"

fun safe_obs :: "(exn + string option) option \<Rightarrow> bool" where
  "safe_obs None = False"
| "safe_obs (Some r) = not_endangered r"

fun observe :: "string \<Rightarrow> (exn + string option) option \<Rightarrow> event \<Rightarrow> (exn + string option) option" where
  "observe b s (GetAttribute b' r) = (if b' = b then Some r else s)"
| "observe b s e = s"

definition last_obs :: "string \<Rightarrow> trace \<Rightarrow> (exn + string option) option" where
  "last_obs b es = foldl (observe b) None es"

fun is_enumeration :: "event \<Rightarrow> bool" where
  "is_enumeration (QueryMBeans r) = True"
| "is_enumeration e = False"

fun empty_or_failed :: "event \<Rightarrow> bool" where
  "empty_or_failed (QueryMBeans (Inr (b # bs))) = False"
| "empty_or_failed e = True"

definition polled_safe :: "string \<Rightarrow> trace \<Rightarrow> trace \<Rightarrow> bool" where
  "polled_safe b tr tr' =
     (\<exists>es. tr' = tr @ es \<and> list_all (polls_service b) es
        \<and> (\<forall>s. safe_obs (foldl (observe b) s es)))"

definition pass_safe :: "string list \<Rightarrow> trace \<Rightarrow> trace \<Rightarrow> bool" where
  "pass_safe beans tr tr' =
     (\<exists>es. tr' = tr @ es \<and> \<not> list_ex is_enumeration es
        \<and> (\<forall>b s. b \<in> set beans \<or> safe_obs s \<longrightarrow> safe_obs (foldl (observe b) s es)))"

definition after_safe_pass :: "trace \<Rightarrow> trace \<Rightarrow> bool" where
  "after_safe_pass tr tr' =
     (\<exists>pre beans polls.
        tr' = tr @ pre @ QueryMBeans (Inr beans) # polls @ [Print SAFE_MSG]
        \<and> list_all empty_or_failed pre
        \<and> \<not> list_ex is_enumeration polls
        \<and> beans \<noteq> []
        \<and> list_all (\<lambda>b. safe_obs (last_obs b polls)) beans)"

definition settles_by :: "nat \<Rightarrow> world \<Rightarrow> bool" where
  "settles_by k w =
     (\<forall>h. k \<le> length h \<longrightarrow>
        (\<exists>b bs. mbs_queryMBeans w h = Inr (b # bs))
        \<and> (\<forall>b. not_endangered (mbs_getAttribute w h b)))"

definition never_safe :: "world \<Rightarrow> bool" where
  "never_safe w =
     (\<forall>h. wlst_domainRuntime w h = None
        \<and> (\<exists>b bs. mbs_queryMBeans w h = Inr (b # bs))
        \<and> (\<forall>b. mbs_getAttribute w h b = Inr (Some ''ENDANGERED'')))"

definition world_settling :: world where
  "world_settling =
     world0\<lparr>mbs_queryMBeans := (\<lambda>h. if length h < 3 then Inr [] else Inr [''s1'']),
            mbs_getAttribute :=
              (\<lambda>h b. if length h < 10 then Inr (Some ''ENDANGERED'')
                     else Inr (Some ''NODE-SAFE''))\<rparr>"

definition world_endangered :: world where
  "world_endangered =
     world0\<lparr>mbs_queryMBeans := (\<lambda>h. Inr [''s1'']),
            mbs_getAttribute := (\<lambda>h b. Inr (Some ''ENDANGERED''))\<rparr>"

definition settling_trace :: trace where
  "settling_trace =
     [Print ''Shutdown: getting all service Coherence MBeans'',
      DomainRuntime None,
      QueryMBeans (Inr []),
      Print ''Shutdown: Waiting until Coherence MBeans available... '',
      Sleep 1,
      QueryMBeans (Inr [''s1'']),
      Print ''Shutdown: Coherence service bean count 1'',
      Print ''Shutdown: checking Coherence service s1'',
      GetAttribute ''s1'' (Inr (Some ''ENDANGERED'')),
      Print ''Shutdown: Coherence HAStatus is ENDANGERED'',
      Print ''Shutdown: Waiting until it is safe to shutdown Coherence server ...'',
      Sleep 5,
      GetAttribute ''s1'' (Inr (Some ''NODE-SAFE'')),
      Print ''Shutdown: Coherence HAStatus is NODE-SAFE'',
      Print ''Shutdown: It is safe to shutdown Coherence'']"

section \<open>Properties\<close>

subsection \<open>Sequencing and traces\<close>

declare str_nat.simps [simp del]

lemma and_then_simps [simp]:
  "and_then (tr, Val x) f = f x tr"
  "and_then (tr, Raised e) f = (tr, Raised e)"
  "and_then (tr, Exited k) f = (tr, Exited k)"
  "and_then (tr, OutOfFuel) f = (tr, OutOfFuel)"
  by (simp_all add: and_then_def)

lemma emits_refl [simp]: "emits P tr tr"
  by (simp add: emits_def)

lemma emits_app [simp]: "emits P tr (tr @ xs) = list_all P xs"
  by (auto simp: emits_def)

lemma emits_trans: "emits P tr tr1 \<Longrightarrow> emits P tr1 tr2 \<Longrightarrow> emits P tr tr2"
  by (auto simp: emits_def)

lemma emits_step: "list_all P xs \<Longrightarrow> emits P (tr @ xs) tr' \<Longrightarrow> emits P tr tr'"
  by (auto simp: emits_def)

lemma service_loop_emits: "emits is_poll tr (fst (service_loop n w b tr))"
proof (induction n arbitrary: tr)
  case 0
  show ?case by simp
next
  case (Suc n)
  show ?case
    by (auto simp: Let_def split: sum.splits option.splits intro!: emits_step [OF _ Suc.IH])
qed

lemma waitUntilServiceSafeToShutdown_emits:
  "emits is_poll tr (fst (waitUntilServiceSafeToShutdown n w b tr))"
  unfolding waitUntilServiceSafeToShutdown_def
  by (rule emits_step [OF _ service_loop_emits]) simp

lemma for_serviceBean_emits: "emits is_poll tr (fst (for_serviceBean n w bs tr))"
proof (induction bs arbitrary: tr)
  case Nil
  show ?case by simp
next
  case (Cons b bs)
  obtain tr1 out where r: "waitUntilServiceSafeToShutdown n w b tr = (tr1, out)"
    by (cases "waitUntilServiceSafeToShutdown n w b tr")
  have e1: "emits is_poll tr tr1"
    using waitUntilServiceSafeToShutdown_emits [of tr n w b] r by simp
  show ?case
    using e1 Cons.IH [of tr1] r by (cases out) (auto intro: emits_trans)
qed

lemma coherence_loop_emits: "emits is_poll tr (fst (coherence_loop n w ws tr))"
proof (induction n arbitrary: tr ws)
  case 0
  show ?case by simp
next
  case (Suc n)
  show ?case
  proof (cases "mbs_queryMBeans w tr")
    case (Inl e)
    then show ?thesis
      by (auto simp: retrying_def intro!: emits_step [OF _ Suc.IH])
  next
    case (Inr beans)
    show ?thesis
    proof (cases "beans = []")
      case True
      with Inr show ?thesis
        by (auto simp: Let_def intro!: emits_step [OF _ Suc.IH])
    next
      case False
      let ?tr1 = "tr @ [QueryMBeans (Inr beans)] @ [Print (''Shutdown: Coherence service bean count ''
                                       @ str_nat (length beans))]"
      obtain tr2 out where r: "for_serviceBean n w beans ?tr1 = (tr2, out)"
        by (cases "for_serviceBean n w beans ?tr1")
      have e1: "emits is_poll tr tr2"
        using for_serviceBean_emits [of ?tr1 n w beans] r
        by (auto intro: emits_step [of _ "[QueryMBeans (Inr beans)] @ [Print (''Shutdown: Coherence service bean count ''
                                       @ str_nat (length beans))]"])
      have e2: "emits is_poll tr (tr2 @ [Print SAFE_MSG])"
        using e1 by (auto simp: emits_def)
      have e3: "emits is_poll tr2 (fst (coherence_loop n w ws (tr2 @ retrying)))"
        by (rule emits_step [OF _ Suc.IH]) (simp add: retrying_def)
      show ?thesis
        using Inr False r e1 e2 emits_trans [OF e1 e3]
        by (cases out) (simp_all add: Let_def)
    qed
  qed
qed

lemma waitUntilCoherenceSafe_emits: "emits is_poll tr (fst (waitUntilCoherenceSafe n w tr))"
  unfolding waitUntilCoherenceSafe_def
  by (auto simp: Let_def split: option.splits intro!: emits_step [OF _ coherence_loop_emits])

subsection \<open>The topology detector fails safe\<close>

text \<open>
  C7. Whenever reading the configuration fails (\<open>open\<close> or \<open>read\<close> raises) or processing
  its content raises, the detector returns \<open>True\<close>; and it returns a value on every
  input, so no exception reaches the caller.
\<close>

theorem detector_fails_safe:
  "(open_read w (dp @ ''/config/config.xml'') = Inl e \<longrightarrow>
      snd (doesCoherenceExist w dp tr) = Val True)
   \<and> (checkCoherenceClusterExist_try v = Inl e \<longrightarrow>
      snd (checkCoherenceClusterExist v tr) = Val True)
   \<and> (\<exists>b. snd (checkCoherenceClusterExist v tr) = Val b)
   \<and> (\<exists>b. snd (doesCoherenceExist w dp tr) = Val b)"
proof -
  have c: "\<exists>b. snd (checkCoherenceClusterExist v' tr') = Val b" for v' tr'
    by (cases "checkCoherenceClusterExist_try v'") (auto simp: checkCoherenceClusterExist_def)
  have d: "\<exists>b. snd (doesCoherenceExist w dp tr) = Val b"
  proof (cases "open_read w (dp @ ''/config/config.xml'')")
    case (Inl e')
    then show ?thesis by (auto simp: doesCoherenceExist_def)
  next
    case (Inr configData)
    obtain b where "snd (checkCoherenceClusterExist (PyStr configData)
        (tr @ [FileRead (dp @ ''/config/config.xml'')])) = Val b"
      using c by blast
    then show ?thesis
      using Inr
      by (cases "checkCoherenceClusterExist (PyStr configData)
        (tr @ [FileRead (dp @ ''/config/config.xml'')])") (auto simp: doesCoherenceExist_def)
  qed
  show ?thesis
    using c d by (simp add: doesCoherenceExist_def checkCoherenceClusterExist_def)
qed

theorem detector_fails_safe_witness:
  "open_read world0 (''/u01/domain'' @ ''/config/config.xml'') = Inl (Exn ''IOError'')
   \<and> snd (doesCoherenceExist world0 ''/u01/domain'' []) = Val True
   \<and> checkCoherenceClusterExist_try PyNone = Inl (Exn ''AttributeError'')
   \<and> snd (checkCoherenceClusterExist PyNone []) = Val True"
  using detector_fails_safe [of world0 "''/u01/domain''" "Exn ''IOError''" "[]" PyNone]
    detector_fails_safe [of world0 "''/u01/domain''" "Exn ''AttributeError''" "[]" PyNone]
  by (simp add: world0_def checkCoherenceClusterExist_try_def)

subsection \<open>The topology detector looks at the leftmost element\<close>

text \<open>Splitting at whitespace and joining removes exactly the whitespace.\<close>

lemma py_split_acc_concat: "concat (py_split_acc w s) = w @ filter (\<lambda>c. \<not> is_space c) s"
  by (induction w s rule: py_split_acc.induct) auto

lemma spaceless_filter: "join_empty (py_split d) = filter (\<lambda>c. \<not> is_space c) d"
  by (simp add: join_empty_def py_split_def py_split_acc_concat)

lemma starts_with_iff: "starts_with p s \<longleftrightarrow> (\<exists>t. s = p @ t)"
  by (induction p s rule: starts_with.induct) auto

lemma starts_with_append [simp]: "starts_with p (p @ t)"
  by (simp add: starts_with_iff)

lemma lazy_any_then_hit: "starts_with lit s \<Longrightarrow> lazy_any_then lit s = Some (length lit)"
  by (cases s) auto

lemma lazy_any_then_first:
  "\<forall>j<length a. \<not> starts_with lit (drop j (a @ lit @ t)) \<Longrightarrow>
   lazy_any_then lit (a @ lit @ t) = Some (length a + length lit)"
proof (induction a)
  case Nil
  show ?case by (simp add: lazy_any_then_hit)
next
  case (Cons x a)
  have "\<not> starts_with lit ((x # a) @ lit @ t)"
    using Cons.prems by force
  moreover have "\<forall>j<length a. \<not> starts_with lit (drop j (a @ lit @ t))"
    using Cons.prems by force
  ultimately show ?case
    using Cons.IH by simp
qed

lemma lazy_any_then_Some:
  "lazy_any_then lit s = Some k \<Longrightarrow> \<exists>a t. s = a @ lit @ t"
proof (induction s arbitrary: k)
  case Nil
  then show ?case by (auto simp: starts_with_iff split: if_splits)
next
  case (Cons c cs)
  show ?case
  proof (cases "starts_with lit (c # cs)")
    case True
    then obtain t where "c # cs = lit @ t" by (auto simp: starts_with_iff)
    then have "c # cs = [] @ lit @ t" by simp
    then show ?thesis by blast
  next
    case False
    with Cons.prems obtain k' where "lazy_any_then lit cs = Some k'" by auto
    with Cons.IH obtain a t where "cs = a @ lit @ t" by blast
    then have "c # cs = (c # a) @ lit @ t" by simp
    then show ?thesis by blast
  qed
qed

lemma match_here_element:
  assumes "\<forall>j<length inner. \<not> starts_with CLOSE_TAG (drop j (inner @ CLOSE_TAG @ post))"
  shows "match_here (OPEN_TAG @ inner @ CLOSE_TAG @ post)
         = Some (length OPEN_TAG + (length inner + length CLOSE_TAG))"
  using lazy_any_then_first [OF assms] by (simp add: match_here_def)

lemma match_here_Some:
  "match_here s = Some m \<Longrightarrow> \<exists>inner post. s = OPEN_TAG @ inner @ CLOSE_TAG @ post"
proof -
  assume m: "match_here s = Some m"
  then have "starts_with OPEN_TAG s"
    by (auto simp: match_here_def split: if_splits)
  then obtain t where t: "s = OPEN_TAG @ t" by (auto simp: starts_with_iff)
  with m obtain k where "lazy_any_then CLOSE_TAG t = Some k"
    by (auto simp: match_here_def split: if_splits)
  then obtain a u where "t = a @ CLOSE_TAG @ u" using lazy_any_then_Some by blast
  with t show ?thesis by blast
qed

lemma re_search_from_leftmost:
  "\<forall>k<length pre. \<not> starts_with OPEN_TAG (drop k (pre @ s)) \<Longrightarrow> match_here s = Some m \<Longrightarrow>
   re_search_from i (pre @ s) = Some (i + length pre, i + length pre + m)"
proof (induction pre arbitrary: i)
  case Nil
  then show ?case by (cases s) simp_all
next
  case (Cons x pre)
  have "\<not> starts_with OPEN_TAG ((x # pre) @ s)"
    using Cons.prems(1) by force
  then have n: "match_here (x # pre @ s) = None"
    by (simp add: match_here_def)
  have "\<forall>k<length pre. \<not> starts_with OPEN_TAG (drop k (pre @ s))"
    using Cons.prems(1) by force
  from Cons.IH [OF this Cons.prems(2), of "Suc i"] n show ?case by simp
qed

lemma re_search_from_Some:
  "re_search_from i s = Some r \<Longrightarrow> \<exists>pre inner post. s = pre @ OPEN_TAG @ inner @ CLOSE_TAG @ post"
proof (induction s arbitrary: i)
  case Nil
  then obtain m where "match_here [] = Some m" by (auto split: option.splits)
  from match_here_Some [OF this] obtain inner post where "[] = [] @ OPEN_TAG @ inner @ CLOSE_TAG @ post"
    by auto
  then show ?case by blast
next
  case (Cons c cs)
  show ?case
  proof (cases "match_here (c # cs)")
    case (Some m)
    from match_here_Some [OF this] obtain inner post
      where "c # cs = [] @ OPEN_TAG @ inner @ CLOSE_TAG @ post" by auto
    then show ?thesis by blast
  next
    case None
    with Cons.prems have "re_search_from (Suc i) cs = Some r" by simp
    from Cons.IH [OF this] obtain pre inner post
      where "cs = pre @ OPEN_TAG @ inner @ CLOSE_TAG @ post" by blast
    then have "c # cs = (c # pre) @ OPEN_TAG @ inner @ CLOSE_TAG @ post" by simp
    then show ?thesis by blast
  qed
qed

text \<open>
  What the search computes. Let \<open>s\<close> be the document with all whitespace removed. The
  pattern is searched once, so only the leftmost open tag of the element and the first
  close tag after it are looked at: the result is \<open>True\<close> exactly when some character
  lies between the two, whatever follows. When \<open>s\<close> holds no open tag followed by a close
  tag, the result is \<open>False\<close>.
\<close>

lemma search_decides_on_leftmost:
  "(join_empty (py_split d) = pre @ OPEN_TAG @ inner @ CLOSE_TAG @ post
      \<and> (\<forall>k<length pre. \<not> starts_with OPEN_TAG (drop k (join_empty (py_split d))))
      \<and> (\<forall>j<length inner. \<not> starts_with CLOSE_TAG (drop j (inner @ CLOSE_TAG @ post)))
    \<longrightarrow> checkCoherenceClusterExist_try (PyStr d) = Inr (inner \<noteq> []))
   \<and> ((\<nexists>pre inner post. join_empty (py_split d) = pre @ OPEN_TAG @ inner @ CLOSE_TAG @ post)
    \<longrightarrow> checkCoherenceClusterExist_try (PyStr d) = Inr False)
   \<and> join_empty (py_split d) = filter (\<lambda>c. \<not> is_space c) d"
proof (intro conjI impI)
  assume a: "join_empty (py_split d) = pre @ OPEN_TAG @ inner @ CLOSE_TAG @ post
      \<and> (\<forall>k<length pre. \<not> starts_with OPEN_TAG (drop k (join_empty (py_split d))))
      \<and> (\<forall>j<length inner. \<not> starts_with CLOSE_TAG (drop j (inner @ CLOSE_TAG @ post)))"
  let ?s = "OPEN_TAG @ inner @ CLOSE_TAG @ post"
  have m: "match_here ?s = Some (length OPEN_TAG + (length inner + length CLOSE_TAG))"
    using a match_here_element by blast
  from a have a1: "join_empty (py_split d) = pre @ ?s"
    and a2: "\<forall>k<length pre. \<not> starts_with OPEN_TAG (drop k (join_empty (py_split d)))"
    by blast+
  have "\<forall>k<length pre. \<not> starts_with OPEN_TAG (drop k (pre @ ?s))"
    using a2 unfolding a1 .
  from re_search_from_leftmost [OF this m, of 0]
  have "re_search (join_empty (py_split d))
        = Some (length pre, length pre + (length OPEN_TAG + (length inner + length CLOSE_TAG)))"
    using a by (simp add: re_search_def)
  then show "checkCoherenceClusterExist_try (PyStr d) = Inr (inner \<noteq> [])"
    by (simp add: checkCoherenceClusterExist_try_def OPEN_TAG_def CLOSE_TAG_def ELEMENT_NAME_def)
next
  assume "\<nexists>pre inner post. join_empty (py_split d) = pre @ OPEN_TAG @ inner @ CLOSE_TAG @ post"
  then have "re_search (join_empty (py_split d)) = None"
    using re_search_from_Some [of 0 "join_empty (py_split d)"]
    by (cases "re_search (join_empty (py_split d))") (auto simp: re_search_def)
  then show "checkCoherenceClusterExist_try (PyStr d) = Inr False"
    by (simp add: checkCoherenceClusterExist_try_def)
next
  show "join_empty (py_split d) = filter (\<lambda>c. \<not> is_space c) d"
    by (rule spaceless_filter)
qed

text \<open>
  C6. A document in which the element is present with non-whitespace content is to give
  \<open>True\<close>. The code does not: in \<open>two_elements\<close> an element with the content \<open>x\<close>
  follows an empty element of the same name, the search stops at the empty one, and the
  detector returns \<open>False\<close>, against its own comment (``Return True if there is a
  CoherenceClusterSystemResource'') and on the unsafe side of a detector that is meant to
  fail safe.
\<close>

theorem nonempty_element_not_detected:
  "two_elements = (OPEN_TAG @ CLOSE_TAG) @ OPEN_TAG @ ''x'' @ CLOSE_TAG @ []
   \<and> \<not> is_space (CHR ''x'')
   \<and> checkCoherenceClusterExist (PyStr two_elements) [] = ([], Val False)"
  by (simp add: two_elements_def OPEN_TAG_def CLOSE_TAG_def ELEMENT_NAME_def is_space_def
      checkCoherenceClusterExist_def checkCoherenceClusterExist_try_def join_empty_def
      py_split_def re_search_def match_here_def)

subsection \<open>Unset environment variables\<close>

lemma getEnvVar_set: "os_environ w v = Some x \<Longrightarrow> getEnvVar w v tr = (tr, Val x)"
  by (simp add: getEnvVar_def)

lemma getEnvVar_unset:
  "os_environ w v = None \<Longrightarrow>
   getEnvVar w v tr = (tr @ [Print (''ERROR: Env var  '' @ v @ ''  not set.'')], Exited 1)"
  by (simp add: getEnvVar_def)

lemma getEnvVars_first_unset:
  "\<forall>u\<in>set pre. os_environ w u \<noteq> None \<Longrightarrow> os_environ w v = None \<Longrightarrow>
   getEnvVars w (pre @ v # post) tr
   = (tr @ [Print (''ERROR: Env var  '' @ v @ ''  not set.'')], Exited 1)"
proof (induction pre)
  case Nil
  then show ?case by (simp add: getEnvVar_unset)
next
  case (Cons u pre)
  then obtain x where "os_environ w u = Some x" by auto
  with Cons show ?case by (simp add: getEnvVar_set)
qed

lemma getEnvVars_some_unset:
  "v \<in> set vars \<Longrightarrow> os_environ w v = None \<Longrightarrow>
   \<exists>u\<in>set vars. getEnvVars w vars tr
     = (tr @ [Print (''ERROR: Env var  '' @ u @ ''  not set.'')], Exited 1)"
proof (induction vars)
  case Nil
  then show ?case by simp
next
  case (Cons u vars)
  show ?case
  proof (cases "os_environ w u")
    case None
    then show ?thesis by (simp add: getEnvVar_unset)
  next
    case (Some x)
    with Cons.prems have "v \<in> set vars" by auto
    from Cons.IH [OF this Cons.prems(2)] Some show ?thesis
      by (auto simp: getEnvVar_set)
  qed
qed

text \<open>
  C10 (as the code has it). The variables are loaded in a fixed order and the script
  stops at the first one that is unset: it prints the error naming that variable and exits
  with status 1, and its whole output is the banner and that error, so no file is read, no
  key decoded and no connection attempted. Whenever any required variable is unset the
  exit status is 1 and the run consists of prints only.
\<close>

theorem first_unset_variable_exits:
  "(required_vars = pre @ v # post \<and> (\<forall>u\<in>set pre. os_environ w u \<noteq> None)
      \<and> os_environ w v = None
    \<longrightarrow> main n w = ([Print ''Shutdown: main script'',
                      Print (''ERROR: Env var  '' @ v @ ''  not set.'')], Exited 1))
   \<and> (v \<in> set required_vars \<and> os_environ w v = None
    \<longrightarrow> snd (main n w) = Exited 1 \<and> list_all is_Print (fst (main n w)))"
proof -
  have first: "main n w = ([Print ''Shutdown: main script'',
                      Print (''ERROR: Env var  '' @ v @ ''  not set.'')], Exited 1)"
    if a: "required_vars = pre @ v # post \<and> (\<forall>u\<in>set pre. os_environ w u \<noteq> None)
      \<and> os_environ w v = None"
  proof -
    have "getEnvVars w required_vars [Print ''Shutdown: main script'']
      = ([Print ''Shutdown: main script''] @ [Print (''ERROR: Env var  '' @ v @ ''  not set.'')],
         Exited 1)"
      using a getEnvVars_first_unset [of pre w v post] by simp
    then show ?thesis
      by (simp add: main_def startup_def)
  qed
  have any: "snd (main n w) = Exited 1 \<and> list_all is_Print (fst (main n w))"
    if a: "v \<in> set required_vars \<and> os_environ w v = None"
  proof -
    obtain u where "getEnvVars w required_vars [Print ''Shutdown: main script'']
      = ([Print ''Shutdown: main script''] @ [Print (''ERROR: Env var  '' @ u @ ''  not set.'')],
         Exited 1)"
      using a getEnvVars_some_unset [of v required_vars w] by blast
    then have "main n w = ([Print ''Shutdown: main script'',
                        Print (''ERROR: Env var  '' @ u @ ''  not set.'')], Exited 1)"
      by (simp add: main_def startup_def)
    then show ?thesis by simp
  qed
  show ?thesis using first any by blast
qed

theorem first_unset_variable_exits_witness:
  "required_vars = take 8 required_vars @ ''SHUTDOWN_TIMEOUT_ARG'' # drop 9 required_vars
   \<and> list_all (\<lambda>u. os_environ world_no_timeout u \<noteq> None) (take 8 required_vars)
   \<and> os_environ world_no_timeout ''SHUTDOWN_TIMEOUT_ARG'' = None
   \<and> ''SHUTDOWN_TIMEOUT_ARG'' \<in> set required_vars
   \<and> main 3 world_no_timeout
       = ([Print ''Shutdown: main script'',
           Print ''ERROR: Env var  SHUTDOWN_TIMEOUT_ARG  not set.''], Exited 1)
   \<and> snd (main 3 world_no_timeout) = Exited 1
   \<and> list_all is_Print (fst (main 3 world_no_timeout))"
  using first_unset_variable_exits [of "take 8 required_vars" "''SHUTDOWN_TIMEOUT_ARG''"
      "drop 9 required_vars" world_no_timeout 3]
  by (simp add: required_vars_def world_no_timeout_def world0_def list_all_iff)

text \<open>
  C10 as stated fails for a variable that is unset together with an earlier one: with
  \<open>DOMAIN_UID\<close> and \<open>ADMIN_NAME\<close> both unset, no error names \<open>ADMIN_NAME\<close>.
\<close>

theorem unset_variable_named_counterexample:
  "''ADMIN_NAME'' \<in> set required_vars
   \<and> os_environ world_two_unset ''ADMIN_NAME'' = None
   \<and> main 3 world_two_unset
       = ([Print ''Shutdown: main script'', Print ''ERROR: Env var  DOMAIN_UID  not set.''],
          Exited 1)
   \<and> Print ''ERROR: Env var  ADMIN_NAME  not set.'' \<notin> set (fst (main 3 world_two_unset))"
  by (simp add: required_vars_def world_two_unset_def world0_def main_def startup_def
      getEnvVar_def)

subsection \<open>Exceptions during the safety wait\<close>

lemma service_loop_polls: "emits (polls_service b) tr (fst (service_loop n w b tr))"
proof (induction n arbitrary: tr)
  case 0
  show ?case by simp
next
  case (Suc n)
  show ?case
    by (auto simp: Let_def split: sum.splits option.splits intro!: emits_step [OF _ Suc.IH])
qed

lemma service_loop_head:
  "\<exists>es. fst (service_loop (Suc n) w b tr) = tr @ GetAttribute b (mbs_getAttribute w tr b) # es"
proof -
  have ext: "\<exists>es. fst (service_loop n w b (tr @ xs)) = tr @ xs @ es" for xs
    using service_loop_emits [of "tr @ xs" n w b] by (auto simp: emits_def)
  show ?thesis
  proof (cases "mbs_getAttribute w tr b")
    case (Inl e)
    then show ?thesis
      using ext [of "[GetAttribute b (Inl e),
                   Print ''Shutdown: An exception occurred getting Coherence MBeans, staying in loop checking for safe'',
                   Traceback, DumpStack, Sleep 10]"]
      by auto
  next
    case (Inr r)
    show ?thesis
    proof (cases r)
      case None
      with Inr show ?thesis by simp
    next
      case (Some status)
      show ?thesis
        using Inr Some
          ext [of "[GetAttribute b (Inr (Some status)),
                    Print (''Shutdown: Coherence HAStatus is '' @ status),
                    Print ''Shutdown: Waiting until it is safe to shutdown Coherence server ...'',
                    Sleep 5]"]
        by (auto simp: Let_def)
    qed
  qed
qed

lemma emits_head: "emits P (tr @ x # xs) tr' \<Longrightarrow> \<exists>es. tr' = tr @ x # es"
  by (auto simp: emits_def)

lemma emits_snoc: "emits P tr tr' \<Longrightarrow> list_all P xs \<Longrightarrow> emits P tr (tr' @ xs)"
  by (auto simp: emits_def)

lemma coherence_loop_emits_head:
  "emits is_poll (tr @ [QueryMBeans (mbs_queryMBeans w tr)]) (fst (coherence_loop (Suc n) w ws tr))"
proof (cases "mbs_queryMBeans w tr")
  case (Inl e)
  have "emits is_poll (tr @ [QueryMBeans (Inl e)]) (fst (coherence_loop n w ws ((tr @ [QueryMBeans (Inl e)]) @ retrying)))"
    by (rule emits_step [OF _ coherence_loop_emits]) (simp add: retrying_def)
  with Inl show ?thesis by simp
next
  case (Inr beans)
  let ?q = "tr @ [QueryMBeans (Inr beans)]"
  show ?thesis
  proof (cases "beans = []")
    case True
    let ?xs = "(if ws then [Print ''Shutdown: Waiting until Coherence MBeans available... '']
                else []) @ [Sleep 1]"
    have "emits is_poll ?q (fst (coherence_loop n w False (?q @ ?xs)))"
      by (rule emits_step [OF _ coherence_loop_emits]) simp
    with Inr True show ?thesis by (simp add: Let_def)
  next
    case False
    let ?c = "[Print (''Shutdown: Coherence service bean count '' @ str_nat (length beans))]"
    obtain tr2 out where r: "for_serviceBean n w beans (?q @ ?c) = (tr2, out)"
      by (cases "for_serviceBean n w beans (?q @ ?c)")
    have e1: "emits is_poll ?q tr2"
      using for_serviceBean_emits [of "?q @ ?c" n w beans] r
      by (auto intro: emits_step [of _ ?c])
    have e2: "emits is_poll ?q (tr2 @ [Print SAFE_MSG])"
      using e1 by (rule emits_snoc) simp
    have e3: "emits is_poll tr2 (fst (coherence_loop n w ws (tr2 @ retrying)))"
      by (rule emits_step [OF _ coherence_loop_emits]) (simp add: retrying_def)
    have e4: "emits is_poll ?q (fst (coherence_loop n w ws (tr2 @ retrying)))"
      using e1 e3 by (rule emits_trans)
    have "fst (coherence_loop (Suc n) w ws tr)
        = (case out of Val u \<Rightarrow> tr2 @ [Print SAFE_MSG]
           | Raised e \<Rightarrow> fst (coherence_loop n w ws (tr2 @ retrying))
           | Exited k \<Rightarrow> tr2 | OutOfFuel \<Rightarrow> tr2)"
      using Inr False r by (cases out) (simp_all add: Let_def)
    then show ?thesis
      using Inr e1 e2 e4 by (cases out) simp_all
  qed
qed

lemma coherence_loop_head:
  "\<exists>es. fst (coherence_loop (Suc n) w ws tr) = tr @ QueryMBeans (mbs_queryMBeans w tr) # es"
  using coherence_loop_emits_head [of tr w n ws] emits_head [of is_poll tr _ "[]"]
  by simp

text \<open>
  C3 (as the code has it). An exception of the health query of a service is handled
  inside \<open>waitUntilServiceSafeToShutdown\<close>: log, traceback, sleep 10, and the next call is
  the health query of the same service; the wait for one service never enumerates. An
  exception of the enumeration is handled by the outer loop: log, traceback, sleep 10, and
  the next call is the enumeration again.
\<close>

theorem exception_retry_paths:
  "(mbs_getAttribute w tr b = Inl e \<longrightarrow>
      (\<exists>es. fst (service_loop (Suc (Suc n)) w b tr)
         = tr @ GetAttribute b (Inl e) # staying
              @ GetAttribute b (mbs_getAttribute w (tr @ GetAttribute b (Inl e) # staying) b) # es))
   \<and> emits (polls_service b) tr (fst (waitUntilServiceSafeToShutdown n w b tr))
   \<and> (mbs_queryMBeans w tr = Inl e \<longrightarrow>
      (\<exists>es. fst (coherence_loop (Suc (Suc n)) w ws tr)
         = tr @ QueryMBeans (Inl e) # retrying
              @ QueryMBeans (mbs_queryMBeans w (tr @ QueryMBeans (Inl e) # retrying)) # es))"
proof -
  have a: "\<exists>es. fst (service_loop (Suc (Suc n)) w b tr)
         = tr @ GetAttribute b (Inl e) # staying
              @ GetAttribute b (mbs_getAttribute w (tr @ GetAttribute b (Inl e) # staying) b) # es"
    if "mbs_getAttribute w tr b = Inl e"
  proof -
    have "service_loop (Suc (Suc n)) w b tr
          = service_loop (Suc n) w b (tr @ GetAttribute b (Inl e) # staying)"
      using that by (simp add: staying_def)
    then show ?thesis
      using service_loop_head [of n w b "tr @ GetAttribute b (Inl e) # staying"] by simp
  qed
  have b: "emits (polls_service b) tr (fst (waitUntilServiceSafeToShutdown n w b tr))"
    unfolding waitUntilServiceSafeToShutdown_def
    by (rule emits_step [OF _ service_loop_polls]) simp
  have c: "\<exists>es. fst (coherence_loop (Suc (Suc n)) w ws tr)
         = tr @ QueryMBeans (Inl e) # retrying
              @ QueryMBeans (mbs_queryMBeans w (tr @ QueryMBeans (Inl e) # retrying)) # es"
    if "mbs_queryMBeans w tr = Inl e"
  proof -
    have "coherence_loop (Suc (Suc n)) w ws tr
          = coherence_loop (Suc n) w ws (tr @ QueryMBeans (Inl e) # retrying)"
      using that by simp
    then show ?thesis
      using coherence_loop_head [of n w ws "tr @ QueryMBeans (Inl e) # retrying"] by simp
  qed
  show ?thesis using a b c by blast
qed


theorem exception_retry_paths_witness:
  "mbs_getAttribute world_flaky [] ''s2'' = Inl (Exn ''timeout'')
   \<and> (\<exists>es. fst (service_loop (Suc (Suc (Suc 0))) world_flaky ''s2'' [])
         = [] @ GetAttribute ''s2'' (Inl (Exn ''timeout'')) # staying
              @ GetAttribute ''s2'' (Inr (Some ''NODE-SAFE'')) # es)
   \<and> emits (polls_service ''s2'') []
         (fst (waitUntilServiceSafeToShutdown (Suc 0) world_flaky ''s2'' []))
   \<and> mbs_queryMBeans world_query_fails [] = Inl (Exn ''timeout'')
   \<and> (\<exists>es. fst (coherence_loop (Suc (Suc (Suc 0))) world_query_fails True [])
         = [] @ QueryMBeans (Inl (Exn ''timeout'')) # retrying @ QueryMBeans (Inr [''s1'']) # es)"
proof -
  have g: "mbs_getAttribute world_flaky [] ''s2'' = Inl (Exn ''timeout'')"
    by (simp add: world_flaky_def)
  have g': "mbs_getAttribute world_flaky
              ([] @ GetAttribute ''s2'' (Inl (Exn ''timeout'')) # staying) ''s2''
            = Inr (Some ''NODE-SAFE'')"
    by (simp add: world_flaky_def)
  have q: "mbs_queryMBeans world_query_fails [] = Inl (Exn ''timeout'')"
    by (simp add: world_query_fails_def)
  have q': "mbs_queryMBeans world_query_fails
              ([] @ QueryMBeans (Inl (Exn ''timeout'')) # retrying) = Inr [''s1'']"
    by (simp add: world_query_fails_def)
  show ?thesis
    using g q
      exception_retry_paths [of world_flaky "[]" "''s2''" "Exn ''timeout''" "Suc 0" True]
      exception_retry_paths [of world_query_fails "[]" "''s2''" "Exn ''timeout''" "Suc 0" True]
    unfolding g' q' by blast
qed

text \<open>
  C3 as stated fails: the health query of \<open>s2\<close> raises, and after the sleep of 10 the
  script queries \<open>s2\<close> again; the services are enumerated once in the whole wait.
\<close>

theorem health_exception_reenumerates_counterexample:
  "waitUntilCoherenceSafe (Suc (Suc (Suc 0))) world_flaky []
   = ([Print ''Shutdown: getting all service Coherence MBeans'',
       DomainRuntime None,
       QueryMBeans (Inr [''s1'', ''s2'']),
       Print ''Shutdown: Coherence service bean count 2'',
       Print ''Shutdown: checking Coherence service s1'',
       GetAttribute ''s1'' (Inr (Some ''NODE-SAFE'')),
       Print ''Shutdown: Coherence HAStatus is NODE-SAFE'',
       Print ''Shutdown: checking Coherence service s2'',
       GetAttribute ''s2'' (Inl (Exn ''timeout'')),
       Print ''Shutdown: An exception occurred getting Coherence MBeans, staying in loop checking for safe'',
       Traceback, DumpStack, Sleep 10,
       GetAttribute ''s2'' (Inr (Some ''NODE-SAFE'')),
       Print ''Shutdown: Coherence HAStatus is NODE-SAFE'',
       Print ''Shutdown: It is safe to shutdown Coherence''],
      Val ())"
proof -
  have "str_nat (Suc (Suc 0)) = ''2''" by code_simp
  then show ?thesis
    by (simp add: waitUntilCoherenceSafe_def waitUntilServiceSafeToShutdown_def world_flaky_def
        world0_def Let_def SAFE_MSG_def del: str_nat.simps)
qed

subsection \<open>The start-up\<close>

lemma emits_mono: "emits P tr tr' \<Longrightarrow> (\<And>e. P e \<Longrightarrow> Q e) \<Longrightarrow> emits Q tr tr'"
  by (auto simp: emits_def list_all_iff)

lemma getEnvVar_emits: "emits is_prep tr (fst (getEnvVar w v tr))"
  by (simp add: getEnvVar_def split: option.splits)

lemma getEnvVars_emits: "emits is_prep tr (fst (getEnvVars w vars tr))"
proof (induction vars arbitrary: tr)
  case Nil
  show ?case by simp
next
  case (Cons v vars)
  show ?case
  proof (cases "os_environ w v")
    case None
    then show ?thesis by (simp add: getEnvVar_def)
  next
    case (Some x)
    obtain tr2 out where r: "getEnvVars w vars tr = (tr2, out)"
      by (cases "getEnvVars w vars tr")
    with Cons.IH [of tr] have "emits is_prep tr tr2" by simp
    with Some r show ?thesis by (cases out) (simp_all add: getEnvVar_def)
  qed
qed

lemma getEnvVars_Val:
  "getEnvVars w vars tr = (tr', Val vals) \<Longrightarrow> tr' = tr \<and> map (os_environ w) vars = map Some vals"
proof (induction vars arbitrary: vals)
  case Nil
  then show ?case by simp
next
  case (Cons v vars)
  show ?case
  proof (cases "os_environ w v")
    case None
    with Cons.prems show ?thesis by (simp add: getEnvVar_def)
  next
    case (Some x)
    obtain tr2 out where r: "getEnvVars w vars tr = (tr2, out)"
      by (cases "getEnvVars w vars tr")
    with Some Cons.prems obtain vs where "out = Val vs" "vals = x # vs" "tr' = tr2"
      by (cases out) (auto simp: getEnvVar_def)
    with Cons.IH [of vs] r Some show ?thesis by simp
  qed
qed

lemma convert_key_emits: "emits is_prep tr (fst (convert_key w tr))"
  by (simp add: convert_key_def split: sum.splits option.splits)

lemma checkCoherenceClusterExist_emits:
  "emits is_prep tr (fst (checkCoherenceClusterExist v tr))"
  by (simp add: checkCoherenceClusterExist_def split: sum.splits)

lemma checkCoherenceClusterExist_Val:
  "\<exists>tr' b. checkCoherenceClusterExist v tr = (tr', Val b) \<and> emits is_prep tr tr'"
  by (auto simp: checkCoherenceClusterExist_def split: sum.splits)

lemma doesCoherenceExist_Val:
  "\<exists>tr' b. doesCoherenceExist w dp tr = (tr', Val b) \<and> emits is_prep tr tr'"
proof (cases "open_read w (dp @ ''/config/config.xml'')")
  case (Inl e)
  then show ?thesis by (auto simp: doesCoherenceExist_def)
next
  case (Inr d)
  obtain tr' b where "checkCoherenceClusterExist (PyStr d) (tr @ [FileRead (dp @ ''/config/config.xml'')])
      = (tr', Val b)" "emits is_prep (tr @ [FileRead (dp @ ''/config/config.xml'')]) tr'"
    using checkCoherenceClusterExist_Val by blast
  with Inr show ?thesis
    by (auto simp: doesCoherenceExist_def intro: emits_step [of _ "[FileRead (dp @ ''/config/config.xml'')]"])
qed

lemma select_target_emits: "emits is_prep tr (fst (select_target c b tr))"
  by (simp add: select_target_def)

lemma initialise_emits: "emits is_prep tr (fst (initialise w vals tr))"
proof (cases "\<exists>v1 v2 v3 v4 v5 v6 v7 v8 v9 v10 v11 v12 v13 v14.
    vals = [v1, v2, v3, v4, v5, v6, v7, v8, v9, v10, v11, v12, v13, v14]")
  case True
  then obtain v1 v2 v3 v4 v5 v6 v7 v8 v9 v10 v11 v12 v13 v14
    where v: "vals = [v1, v2, v3, v4, v5, v6, v7, v8, v9, v10, v11, v12, v13, v14]"
    by blast
  obtain tr1 o1 where k: "convert_key w tr = (tr1, o1)" by (cases "convert_key w tr")
  have e1: "emits is_prep tr tr1" using convert_key_emits [of tr w] k by simp
  obtain tr2 b where d: "doesCoherenceExist w v5 tr1 = (tr2, Val b)" "emits is_prep tr1 tr2"
    using doesCoherenceExist_Val by blast
  have e3: "emits is_prep tr2 (fst (select_target c' b tr2))" for c'
    by (rule select_target_emits)
  show ?thesis
    using v k d e1 e3
    by (cases o1) (auto simp: Let_def intro: emits_trans)
next
  case False
  then have "initialise w vals tr = (tr, Raised (Exn ''ValueError''))"
    by (cases "(w, vals, tr)" rule: initialise.cases) auto
  then show ?thesis by simp
qed

lemma startup_emits: "emits is_prep [] (fst (startup w))"
proof -
  obtain tr0 out where g: "getEnvVars w required_vars [Print ''Shutdown: main script''] = (tr0, out)"
    by (cases "getEnvVars w required_vars [Print ''Shutdown: main script'']")
  have e0: "emits is_prep [] tr0"
    using getEnvVars_emits [of "[Print ''Shutdown: main script'']" w required_vars] g
    by (auto intro: emits_step [of _ "[Print ''Shutdown: main script'']" "[]", simplified])
  show ?thesis
    using g e0 initialise_emits [of tr0 w] 
    by (cases out) (auto simp: startup_def intro: emits_trans)
qed

lemma doesCoherenceExist_value:
  "snd (doesCoherenceExist w dp tr) = snd (doesCoherenceExist w dp tr')"
  by (auto simp: doesCoherenceExist_def checkCoherenceClusterExist_def Let_def
      split: sum.splits)

lemma startup_Val:
  assumes "startup w = (tr1, Val c)"
  shows "\<exists>tr0 tr2 c0 b.
    map (os_environ w) required_vars
      = map Some [domain_uid c0, admin_name c0, server_name c0, domain_name c0, domain_path c0,
           service_name c0, local_admin_port c0, local_admin_protocol c0, timeout c0,
           ignore_sessions c0, wait_for_all_sessions c0, shutdown_type c0, admin_port c0,
           admin_host c0]
    \<and> force c0 = (if lower (shutdown_type c0) = ''forced'' then ''true'' else ''false'')
    \<and> doesCoherenceExist w (domain_path c0) tr0 = (tr2, Val b)
    \<and> select_target c0 b tr2 = (tr1, Val c)"
proof -
  obtain tr0 o0 where g: "getEnvVars w required_vars [Print ''Shutdown: main script''] = (tr0, o0)"
    by (cases "getEnvVars w required_vars [Print ''Shutdown: main script'']")
  with assms obtain vals where o0: "o0 = Val vals" and i: "initialise w vals tr0 = (tr1, Val c)"
    by (cases o0) (auto simp: startup_def)
  from getEnvVars_Val [OF g [unfolded o0]]
  have m: "map (os_environ w) required_vars = map Some vals" by simp
  then have "length vals = 14"
    using length_map [of "os_environ w" required_vars] length_map [of Some vals]
    by (simp add: required_vars_def)
  then obtain v1 v2 v3 v4 v5 v6 v7 v8 v9 v10 v11 v12 v13 v14
    where v: "vals = [v1, v2, v3, v4, v5, v6, v7, v8, v9, v10, v11, v12, v13, v14]"
    by (auto simp: length_Suc_conv eval_nat_numeral)
  let ?c0 = "\<lparr>domain_uid = v1, admin_name = v2, server_name = v3, domain_name = v4,
               domain_path = v5, service_name = v6, local_admin_port = v7,
               local_admin_protocol = v8, timeout = v9, ignore_sessions = v10,
               wait_for_all_sessions = v11, shutdown_type = v12, admin_port = v13,
               admin_host = v14,
               force = (if lower v12 = ''forced'' then ''true'' else ''false''),
               connect_url = [], cohExists = False\<rparr>"
  obtain trk ok where k: "convert_key w tr0 = (trk, ok)" by (cases "convert_key w tr0")
  with i v obtain u where ok: "ok = Val u"
    by (cases ok) (auto simp: Let_def)
  obtain tr2 b where d: "doesCoherenceExist w v5 trk = (tr2, Val b)"
    using doesCoherenceExist_Val by blast
  have s: "select_target ?c0 b tr2 = (tr1, Val c)"
    using i v k ok d by (simp add: Let_def)
  show ?thesis
    using m v d s
    by (intro exI [of _ trk] exI [of _ tr2] exI [of _ ?c0] exI [of _ b]) simp
qed

lemma startup_admin:
  "startup world_admin
   = (startup_events @ [Print ''Shutdown: Coherence cluster exists''], Val cfg_admin)"
  by code_simp

lemma startup_plain:
  "startup world_plain
   = (startup_events @ [Print ''Shutdown: Coherence cluster does not exist''], Val cfg_plain)"
  by code_simp

subsection \<open>Target and force flag of the calls\<close>

lemma poll_uses_target: "is_poll e \<Longrightarrow> uses_target c e"
  by (cases e) simp_all

lemma call_shutdown_uses: "emits (uses_target c) tr (fst (call_shutdown w c tr))"
  by (simp add: call_shutdown_def Let_def split: sum.splits option.splits)

lemma connect_try_uses: "emits (uses_target c) tr (fst (connect_try n w c cs tr))"
proof -
  let ?tr2 = "tr @ [Print (''Shutdown: Connecting to server at '' @ connect_url c),
                    Connect (connect_url c) (domain_name c) (domain_path c)
                      (wlst_connect w (tr @ [Print (''Shutdown: Connecting to server at '' @ connect_url c)])
                         (connect_url c))]"
  let ?tr3 = "?tr2 @ [Print ''Shutdown: Successfully connected to server'']"
  have e3: "emits (uses_target c) tr ?tr3" by simp
  obtain tr4 o4 where wt: "waitUntilCoherenceSafe n w ?tr3 = (tr4, o4)"
    by (cases "waitUntilCoherenceSafe n w ?tr3")
  have "emits is_poll ?tr3 tr4"
    using waitUntilCoherenceSafe_emits [of ?tr3 n w] wt by simp
  then have "emits (uses_target c) ?tr3 tr4"
    by (rule emits_mono) (rule poll_uses_target)
  with e3 have e4: "emits (uses_target c) tr tr4"
    by (rule emits_trans)
  have e5: "emits (uses_target c) tr (fst (call_shutdown w c tr4))"
    using e4 call_shutdown_uses by (rule emits_trans)
  have e6: "emits (uses_target c) tr (fst (call_shutdown w c ?tr3))"
    using e3 call_shutdown_uses by (rule emits_trans)
  show ?thesis
  proof (cases "wlst_connect w (tr @ [Print (''Shutdown: Connecting to server at '' @ connect_url c)])
                         (connect_url c)")
    case (Some e)
    then show ?thesis by (simp add: connect_try_def Let_def)
  next
    case None
    show ?thesis
    proof (cases "cohExists c")
      case True
      with None wt e4 e5 show ?thesis
        by (cases o4) (simp_all add: connect_try_def Let_def split_beta)
    next
      case False
      with None e6 show ?thesis
        by (simp add: connect_try_def Let_def split_beta)
    qed
  qed
qed

lemma shutdownUsingNodeManager_uses:
  "emits (uses_target c) tr (fst (shutdownUsingNodeManager w sn dn dd tr))"
  by (simp add: shutdownUsingNodeManager_def Let_def split: option.splits)

lemma connect_loop_uses: "emits (uses_target c) tr (fst (connect_loop n w c stay cs tr))"
proof (induction n arbitrary: tr stay cs)
  case 0
  show ?case by (cases stay) simp_all
next
  case (Suc n)
  show ?case
  proof (cases stay)
    case False
    then show ?thesis by simp
  next
    case True
    obtain tr1 cs1 o1 where t: "connect_try n w c cs tr = (tr1, cs1, o1)"
      by (cases "connect_try n w c cs tr")
    have e1: "emits (uses_target c) tr tr1"
      using connect_try_uses [of c tr n w cs] t by simp
    show ?thesis
    proof (cases o1)
      case (Val u)
      with True t e1 show ?thesis by simp
    next
      case (Raised e)
      let ?tr2 = "tr1 @ [PrintExn e, Print ''Shutdown: Exception in connect or shutdown'']"
      have e2: "emits (uses_target c) tr ?tr2"
        using e1 by (rule emits_snoc) simp
      have retry: "emits (uses_target c) tr (fst (connect_loop n w c True cs'
          (?tr2 @ [Print ''Shutdown: Coherence not safe to shutdown. Sleeping before connect retry ...'',
                   Sleep 10])))" for cs'
        by (rule emits_trans [OF e2]) (rule emits_step [OF _ Suc.IH], simp)
      obtain tr3 o3 where f: "shutdownUsingNodeManager w (server_name c) (domain_name c)
                        (domain_path c) ?tr2 = (tr3, o3)"
        by (cases "shutdownUsingNodeManager w (server_name c) (domain_name c) (domain_path c) ?tr2")
      have e3: "emits (uses_target c) tr tr3"
        using shutdownUsingNodeManager_uses [of c ?tr2 w "server_name c" "domain_name c" "domain_path c"] f
        by (auto intro: emits_trans [OF e2])
      show ?thesis
        using True t Raised retry f e3
        by (cases o3) (simp_all add: Let_def)
    next
      case (Exited k)
      with True t e1 show ?thesis by simp
    next
      case OutOfFuel
      with True t e1 show ?thesis by simp
    qed
  qed
qed

text \<open>
  C8. When the start-up completes with configuration \<open>c\<close>: if Coherence exists and the
  admin server is the server being stopped, the force flag is \<open>true\<close> whatever the
  shutdown type; if Coherence exists the URL is the admin endpoint; if not, the URL is the
  local endpoint and the force flag is the configured one (\<open>true\<close> exactly for the type
  \<open>forced\<close>, in any case). Every \<open>connect\<close> of the run uses that URL and every
  \<open>shutdown\<close> that force flag.
\<close>

theorem target_and_force:
  "startup w = (tr1, Val c) \<Longrightarrow>
   (cohExists c \<and> admin_name c = server_name c \<longrightarrow> force c = ''true'')
   \<and> (cohExists c \<longrightarrow>
        connect_url c = local_admin_protocol c @ ''://'' @ admin_host c @ '':'' @ admin_port c)
   \<and> (\<not> cohExists c \<longrightarrow>
        connect_url c = local_admin_protocol c @ ''://'' @ service_name c @ '':''
                        @ local_admin_port c
        \<and> force c = (if lower (shutdown_type c) = ''forced'' then ''true'' else ''false''))
   \<and> os_environ w ''ADMIN_NAME'' = Some (admin_name c)
   \<and> os_environ w ''SERVER_NAME'' = Some (server_name c)
   \<and> os_environ w ''SHUTDOWN_TYPE_ARG'' = Some (shutdown_type c)
   \<and> os_environ w ''SHUTDOWN_PROTOCOL_ARG'' = Some (local_admin_protocol c)
   \<and> os_environ w ''AS_SERVICE_NAME'' = Some (admin_host c)
   \<and> os_environ w ''ADMIN_PORT'' = Some (admin_port c)
   \<and> os_environ w ''SERVICE_NAME'' = Some (service_name c)
   \<and> os_environ w ''SHUTDOWN_PORT_ARG'' = Some (local_admin_port c)
   \<and> snd (doesCoherenceExist w (domain_path c) []) = Val (cohExists c)
   \<and> emits (uses_target c) tr1 (fst (main n w))"
proof -
  assume a: "startup w = (tr1, Val c)"
  from startup_Val [OF a] obtain tr0 tr2 c0 b where
    m: "map (os_environ w) required_vars
      = map Some [domain_uid c0, admin_name c0, server_name c0, domain_name c0, domain_path c0,
           service_name c0, local_admin_port c0, local_admin_protocol c0, timeout c0,
           ignore_sessions c0, wait_for_all_sessions c0, shutdown_type c0, admin_port c0,
           admin_host c0]"
    and f: "force c0 = (if lower (shutdown_type c0) = ''forced'' then ''true'' else ''false'')"
    and d: "doesCoherenceExist w (domain_path c0) tr0 = (tr2, Val b)"
    and s: "select_target c0 b tr2 = (tr1, Val c)"
    by blast
  have c: "c = (if b
      then c0\<lparr>cohExists := True,
               connect_url := local_admin_protocol c0 @ ''://'' @ admin_host c0 @ '':''
                              @ admin_port c0,
               force := (if admin_name c0 = server_name c0 then ''true'' else force c0)\<rparr>
      else c0\<lparr>cohExists := False,
               connect_url := local_admin_protocol c0 @ ''://'' @ service_name c0 @ '':''
                              @ local_admin_port c0\<rparr>)"
    using s by (auto simp: select_target_def split: if_splits)
  have dv: "snd (doesCoherenceExist w (domain_path c0) []) = Val b"
    using d doesCoherenceExist_value [of w "domain_path c0" "[]" tr0] by simp
  have run: "fst (main n w) = fst (connect_loop n w c True False tr1)"
    using a by (cases "connect_loop n w c True False tr1" rule: prod.exhaust [case_names Pair])
      (auto simp: main_def and_then_def split: outcome.splits)
  have e: "emits (uses_target c) tr1 (fst (main n w))"
    unfolding run by (rule connect_loop_uses)
  show ?thesis
    using m f dv e by (simp add: c required_vars_def)
qed

theorem target_and_force_witness:
  "startup world_admin
     = (startup_events @ [Print ''Shutdown: Coherence cluster exists''], Val cfg_admin)
   \<and> cohExists cfg_admin \<and> admin_name cfg_admin = server_name cfg_admin
   \<and> shutdown_type cfg_admin = ''Graceful'' \<and> force cfg_admin = ''true''
   \<and> connect_url cfg_admin = ''SHUTDOWN_PROTOCOL_ARG://AS_SERVICE_NAME:ADMIN_PORT''
   \<and> emits (uses_target cfg_admin)
         (startup_events @ [Print ''Shutdown: Coherence cluster exists''])
         (fst (main 3 world_admin))
   \<and> startup world_plain
     = (startup_events @ [Print ''Shutdown: Coherence cluster does not exist''], Val cfg_plain)
   \<and> \<not> cohExists cfg_plain \<and> force cfg_plain = ''false''
   \<and> connect_url cfg_plain = ''SHUTDOWN_PROTOCOL_ARG://SERVICE_NAME:SHUTDOWN_PORT_ARG''
   \<and> emits (uses_target cfg_plain)
         (startup_events @ [Print ''Shutdown: Coherence cluster does not exist''])
         (fst (main 3 world_plain))"
  using startup_admin startup_plain
    target_and_force [OF startup_admin, of 3] target_and_force [OF startup_plain, of 3]
  by (simp add: cfg_admin_def cfg_plain_def)

subsection \<open>The connect loop, one iteration at a time\<close>

lemma and_then_Pair: "and_then (tr, out) f = (case out of Val x \<Rightarrow> f x tr | Raised e \<Rightarrow> (tr, Raised e)
    | Exited k \<Rightarrow> (tr, Exited k) | OutOfFuel \<Rightarrow> (tr, OutOfFuel))"
  by (cases out) simp_all

lemma service_loop_not_Exited: "snd (service_loop n w b tr) \<noteq> Exited k"
  by (induction n arbitrary: tr) (auto simp: Let_def split: sum.splits option.splits)

lemma service_loop_not_Raised: "snd (service_loop n w b tr) \<noteq> Raised e"
  by (induction n arbitrary: tr) (auto simp: Let_def split: sum.splits option.splits)

lemma for_serviceBean_outcome:
  "snd (for_serviceBean n w bs tr) \<noteq> Exited k \<and> snd (for_serviceBean n w bs tr) \<noteq> Raised e"
proof (induction bs arbitrary: tr)
  case Nil
  show ?case by simp
next
  case (Cons b bs)
  obtain tr1 o1 where r: "service_loop n w b (tr @ [Print (''Shutdown: checking Coherence service '' @ b)]) = (tr1, o1)"
    by (cases "service_loop n w b (tr @ [Print (''Shutdown: checking Coherence service '' @ b)])")
  have "o1 \<noteq> Exited k" "o1 \<noteq> Raised e"
    using service_loop_not_Exited [of n w b _ k] service_loop_not_Raised [of n w b _ e] r
    by (metis snd_conv)+
  then show ?case
    using r Cons.IH [of tr1]
    by (cases o1) (simp_all add: waitUntilServiceSafeToShutdown_def)
qed

lemma wait_result_step:
  "wait_result (tr @ xs) tr' out \<Longrightarrow> list_all is_poll xs \<Longrightarrow> wait_result tr tr' out"
proof -
  assume a: "wait_result (tr @ xs) tr' out" and p: "list_all is_poll xs"
  then obtain es where es: "tr' = (tr @ xs) @ es" "list_all is_poll es"
      "out = Val () \<longrightarrow> (\<exists>es'. es = es' @ [Print SAFE_MSG])"
    by (auto simp: wait_result_def)
  have "out = Val () \<longrightarrow> (\<exists>es'. xs @ es = es' @ [Print SAFE_MSG])"
  proof
    assume "out = Val ()"
    with es(3) obtain es' where "es = es' @ [Print SAFE_MSG]" by blast
    then have "xs @ es = (xs @ es') @ [Print SAFE_MSG]" by simp
    then show "\<exists>es'. xs @ es = es' @ [Print SAFE_MSG]" by blast
  qed
  with es p show ?thesis
    unfolding wait_result_def by (intro exI [of _ "xs @ es"]) simp
qed

lemma wait_result_safe:
  "list_all is_poll es \<Longrightarrow> wait_result tr (tr @ es @ [Print SAFE_MSG]) (Val ())"
  unfolding wait_result_def by (rule exI [of _ "es @ [Print SAFE_MSG]"]) simp

lemma wait_result_other:
  "list_all is_poll es \<Longrightarrow> out \<noteq> Val () \<Longrightarrow> wait_result tr (tr @ es) out"
  unfolding wait_result_def by (rule exI [of _ es]) simp

lemma coherence_loop_result:
  "coherence_loop n w ws tr = (tr', out) \<Longrightarrow>
   wait_result tr tr' out \<and> out \<noteq> Exited k \<and> out \<noteq> Raised e"
proof (induction n arbitrary: tr ws)
  case 0
  then show ?case using wait_result_other [of "[]" OutOfFuel tr] by auto
next
  case (Suc n)
  show ?case
  proof (cases "mbs_queryMBeans w tr")
    case (Inl x)
    with Suc.prems have r: "coherence_loop n w ws (tr @ QueryMBeans (Inl x) # retrying) = (tr', out)"
      by simp
    show ?thesis
      using Suc.IH [OF r] wait_result_step [of tr "QueryMBeans (Inl x) # retrying" tr' out]
      by (simp add: retrying_def)
  next
    case (Inr beans)
    show ?thesis
    proof (cases "beans = []")
      case True
      let ?xs = "QueryMBeans (Inr beans) # (if ws then [Print ''Shutdown: Waiting until Coherence MBeans available... '']
                else []) @ [Sleep 1]"
      from Inr True Suc.prems have r: "coherence_loop n w False (tr @ ?xs) = (tr', out)"
        by (simp add: Let_def)
      show ?thesis
        using Suc.IH [OF r] wait_result_step [of tr ?xs tr' out] by simp
    next
      case False
      let ?q = "[QueryMBeans (Inr beans), Print (''Shutdown: Coherence service bean count ''
                                       @ str_nat (length beans))]"
      obtain tr2 o2 where f: "for_serviceBean n w beans (tr @ ?q) = (tr2, o2)"
        by (cases "for_serviceBean n w beans (tr @ ?q)")
      obtain es2 where es2: "tr2 = (tr @ ?q) @ es2" "list_all is_poll es2"
        using for_serviceBean_emits [of "tr @ ?q" n w beans] f by (auto simp: emits_def)
      have o2: "o2 \<noteq> Exited k'" "o2 \<noteq> Raised e'" for k' e'
        using for_serviceBean_outcome [of n w beans "tr @ ?q"] f by (metis snd_conv)+
      show ?thesis
      proof (cases o2)
        case (Val u)
        with Inr False f Suc.prems have "tr' = tr2 @ [Print SAFE_MSG]" "out = Val ()"
          by (simp_all add: Let_def)
        then show ?thesis
          using es2 wait_result_safe [of "?q @ es2" tr] by simp
      next
        case (Raised x)
        with o2(2) [of x] show ?thesis by simp
      next
        case (Exited x)
        with o2(1) [of x] show ?thesis by simp
      next
        case OutOfFuel
        with Inr False f Suc.prems have "tr' = tr2" "out = OutOfFuel"
          by (simp_all add: Let_def)
        then show ?thesis
          using es2 wait_result_other [of "?q @ es2" OutOfFuel tr] by simp
      qed
    qed
  qed
qed

lemma waitUntilCoherenceSafe_result:
  "waitUntilCoherenceSafe n w tr = (tr', out) \<Longrightarrow> wait_result tr tr' out \<and> out \<noteq> Exited k"
proof -
  assume a: "waitUntilCoherenceSafe n w tr = (tr', out)"
  let ?t = "tr @ [Print ''Shutdown: getting all service Coherence MBeans'']"
  show ?thesis
  proof (cases "wlst_domainRuntime w ?t")
    case (Some e)
    with a have "tr' = tr @ [Print ''Shutdown: getting all service Coherence MBeans'',
        DomainRuntime (Some e)]" "out = Raised e"
      by (simp_all add: waitUntilCoherenceSafe_def Let_def)
    then show ?thesis
      using wait_result_other [of "[Print ''Shutdown: getting all service Coherence MBeans'',
        DomainRuntime (Some e)]" out tr] by simp
  next
    case None
    with a have r: "coherence_loop n w True (tr @ [Print ''Shutdown: getting all service Coherence MBeans'',
        DomainRuntime None]) = (tr', out)"
      by (simp add: waitUntilCoherenceSafe_def Let_def)
    show ?thesis
      using coherence_loop_result [OF r, of k]
        wait_result_step [of tr "[Print ''Shutdown: getting all service Coherence MBeans'',
        DomainRuntime None]" tr' out]
      by simp
  qed
qed

lemma call_shutdown_cases:
  obtains (int_failed) e where
      "call_shutdown w c tr = (tr @ calling c, Raised e)"
  | (failed) t e where
      "call_shutdown w c tr = (tr @ calling c @ [shutdown_call c t (Some e)], Raised e)"
  | (stopped) t where
      "call_shutdown w c tr
       = (tr @ calling c @ [shutdown_call c t None,
                            Print ''Shutdown: Successfully shutdown the server''], Val ())"
proof (cases "int_of_str w (timeout c)")
  case (Inl e)
  then have "call_shutdown w c tr = (tr @ calling c, Raised e)"
    by (simp add: call_shutdown_def calling_def)
  then show ?thesis by (rule int_failed)
next
  case (Inr t)
  show ?thesis
  proof (cases "wlst_shutdown w (tr @ calling c)")
    case None
    with Inr have "call_shutdown w c tr
       = (tr @ calling c @ [shutdown_call c t None,
                            Print ''Shutdown: Successfully shutdown the server''], Val ())"
      by (simp add: call_shutdown_def calling_def shutdown_call_def Let_def)
    then show ?thesis by (rule stopped)
  next
    case (Some e)
    with Inr have "call_shutdown w c tr = (tr @ calling c @ [shutdown_call c t (Some e)], Raised e)"
      by (simp add: call_shutdown_def calling_def shutdown_call_def Let_def)
    then show ?thesis by (rule failed)
  qed
qed

lemma connect_try_cases:
  obtains (refused) e where
      "connect_try n w c cs tr = (tr @ connecting c (Some e), cs, Raised e)"
  | (waiting) es out where
      "cohExists c" "list_all is_poll es" "out \<noteq> Val ()" "\<forall>k. out \<noteq> Exited k"
      "connect_try n w c cs tr = (tr @ connected c @ es, cs, out)"
  | (safe) es where
      "cohExists c" "list_all is_poll es"
      "connect_try n w c cs tr
       = (fst (call_shutdown w c (tr @ connected c @ es @ [Print SAFE_MSG])), True,
          snd (call_shutdown w c (tr @ connected c @ es @ [Print SAFE_MSG])))"
  | (plain)
      "\<not> cohExists c"
      "connect_try n w c cs tr
       = (fst (call_shutdown w c (tr @ connected c)), cs,
          snd (call_shutdown w c (tr @ connected c)))"
proof (cases "wlst_connect w (tr @ [Print (''Shutdown: Connecting to server at '' @ connect_url c)])
                (connect_url c)")
  case (Some e)
  then have "connect_try n w c cs tr = (tr @ connecting c (Some e), cs, Raised e)"
    by (simp add: connect_try_def connecting_def Let_def)
  then show ?thesis by (rule refused)
next
  case None
  show ?thesis
  proof (cases "cohExists c")
    case False
    with None have "connect_try n w c cs tr
       = (fst (call_shutdown w c (tr @ connected c)), cs,
          snd (call_shutdown w c (tr @ connected c)))"
      by (simp add: connect_try_def connecting_def connected_def Let_def split_beta)
    with False show ?thesis by (rule plain)
  next
    case True
    obtain tr4 o4 where wt: "waitUntilCoherenceSafe n w (tr @ connected c) = (tr4, o4)"
      by (cases "waitUntilCoherenceSafe n w (tr @ connected c)")
    from waitUntilCoherenceSafe_result [OF wt]
    obtain es where es: "tr4 = (tr @ connected c) @ es" "list_all is_poll es"
        "o4 = Val () \<longrightarrow> (\<exists>es'. es = es' @ [Print SAFE_MSG])" and ne: "\<forall>k. o4 \<noteq> Exited k"
      by (auto simp: wait_result_def)
    show ?thesis
    proof (cases "o4 = Val ()")
      case v: True
      with es(3) obtain es' where es': "es = es' @ [Print SAFE_MSG]" by blast
      with es(2) have p: "list_all is_poll es'" by simp
      have "connect_try n w c cs tr
       = (fst (call_shutdown w c (tr @ connected c @ es' @ [Print SAFE_MSG])), True,
          snd (call_shutdown w c (tr @ connected c @ es' @ [Print SAFE_MSG])))"
        using None True wt v es(1) es'
        by (simp add: connect_try_def connecting_def connected_def Let_def split_beta)
      with True p show ?thesis by (rule safe)
    next
      case nv: False
      have "connect_try n w c cs tr = (tr @ connected c @ es, cs, o4)"
        using None True wt nv ne es(1)
        by (cases o4) (simp_all add: connect_try_def connecting_def connected_def Let_def)
      with True es(2) nv ne show ?thesis by (rule waiting)
    qed
  qed
qed

lemma attempt_cases:
  obtains (refused) e where
      "connect_try n w c cs tr = (tr @ connecting c (Some e), cs, Raised e)"
  | (unsafe) es e where
      "cohExists c" "list_all is_poll es"
      "connect_try n w c cs tr = (tr @ connected c @ es, cs, Raised e)"
  | (waiting) es where
      "cohExists c" "list_all is_poll es"
      "connect_try n w c cs tr = (tr @ connected c @ es, cs, OutOfFuel)"
  | (int_failed) pre cs' e where
      "approach c cs pre cs'"
      "connect_try n w c cs tr = (tr @ pre @ calling c, cs', Raised e)"
  | (failed) pre cs' t e where
      "approach c cs pre cs'"
      "connect_try n w c cs tr
       = (tr @ pre @ calling c @ [shutdown_call c t (Some e)], cs', Raised e)"
  | (stopped) pre cs' t where
      "approach c cs pre cs'"
      "connect_try n w c cs tr
       = (tr @ pre @ calling c @ [shutdown_call c t None,
                                  Print ''Shutdown: Successfully shutdown the server''],
          cs', Val ())"
proof (cases rule: connect_try_cases [where n = n and w = w and c = c and cs = cs and tr = tr])
  case (refused e)
  then show ?thesis by (rule that(1))
next
  case (waiting es out)
  show ?thesis
  proof (cases out)
    case (Val u)
    with waiting(3) show ?thesis by simp
  next
    case (Raised e)
    with waiting show ?thesis by (intro that(2) [of es e]) simp_all
  next
    case (Exited k)
    with waiting(4) show ?thesis by simp
  next
    case OutOfFuel
    with waiting show ?thesis by (intro that(3) [of es]) simp_all
  qed
next
  case (safe es)
  let ?pre = "connected c @ es @ [Print SAFE_MSG]"
  have a: "approach c cs ?pre True"
    using safe(1,2) by (auto simp: approach_def)
  show ?thesis
  proof (cases rule: call_shutdown_cases [where w = w and c = c and tr = "tr @ ?pre"])
    case (int_failed e)
    with safe(3) a show ?thesis by (intro that(4) [of ?pre True e]) simp_all
  next
    case (failed t e)
    with safe(3) a show ?thesis by (intro that(5) [of ?pre True t e]) simp_all
  next
    case (stopped t)
    with safe(3) a show ?thesis by (intro that(6) [of ?pre True t]) simp_all
  qed
next
  case plain
  let ?pre = "connected c"
  have a: "approach c cs ?pre cs"
    using plain(1) by (simp add: approach_def)
  show ?thesis
  proof (cases rule: call_shutdown_cases [where w = w and c = c and tr = "tr @ ?pre"])
    case (int_failed e)
    with plain(2) a show ?thesis by (intro that(4) [of ?pre cs e]) simp_all
  next
    case (failed t e)
    with plain(2) a show ?thesis by (intro that(5) [of ?pre cs t e]) simp_all
  next
    case (stopped t)
    with plain(2) a show ?thesis by (intro that(6) [of ?pre cs t]) simp_all
  qed
qed

lemma shutdownUsingNodeManager_eq:
  "shutdownUsingNodeManager w (server_name c) (domain_name c) (domain_path c) tr
   = (let r1 = wlst_nmConnect w (tr @ [Print ''Shutdown: Attempting shutdown using NodeManager'']);
          r2 = wlst_nmKill w
                 (tr @ [Print ''Shutdown: Attempting shutdown using NodeManager'',
                        NmConnect (domain_name c) (domain_path c) None,
                        Print ''Shutdown: Successfully connected to NodeManager''])
      in (tr @ nm_events c r1 r2,
          case r1 of Some e \<Rightarrow> Raised e
          | None \<Rightarrow> (case r2 of Some e \<Rightarrow> Raised e | None \<Rightarrow> Val ())))"
  by (simp add: shutdownUsingNodeManager_def nm_events_def Let_def split: option.splits)

text \<open>One iteration of the connect loop, by the outcome of the attempt.\<close>

lemma connect_loop_stopped:
  "connect_try n w c cs tr = (tr1, cs1, Val ()) \<Longrightarrow>
   connect_loop (Suc n) w c True cs tr = (tr1, Val ())"
  by simp

lemma connect_loop_waiting:
  "connect_try n w c cs tr = (tr1, cs1, OutOfFuel) \<Longrightarrow>
   connect_loop (Suc n) w c True cs tr = (tr1, OutOfFuel)"
  by simp

lemma connect_loop_retry:
  "connect_try n w c cs tr = (tr1, cs1, Raised e) \<Longrightarrow> cohExists c \<Longrightarrow> \<not> cs1 \<Longrightarrow>
   connect_loop (Suc n) w c True cs tr
   = connect_loop n w c True False (tr1 @ caught e @ sleeping)"
  by (simp add: caught_def sleeping_def)

lemma connect_loop_fallback:
  "connect_try n w c cs tr = (tr1, cs1, Raised e) \<Longrightarrow> \<not> cohExists c \<or> cs1 \<Longrightarrow>
   \<exists>r1 r2. connect_loop (Suc n) w c True cs tr
     = (tr1 @ caught e @ nm_events c r1 r2,
        if r1 = None \<and> r2 = None then Exited 0 else Exited 2)"
proof -
  assume t: "connect_try n w c cs tr = (tr1, cs1, Raised e)" and f: "\<not> cohExists c \<or> cs1"
  let ?r1 = "wlst_nmConnect w ((tr1 @ caught e) @ [Print ''Shutdown: Attempting shutdown using NodeManager''])"
  let ?r2 = "wlst_nmKill w
                 ((tr1 @ caught e) @ [Print ''Shutdown: Attempting shutdown using NodeManager'',
                        NmConnect (domain_name c) (domain_path c) None,
                        Print ''Shutdown: Successfully connected to NodeManager''])"
  have "connect_loop (Suc n) w c True cs tr
     = (tr1 @ caught e @ nm_events c ?r1 ?r2,
        if ?r1 = None \<and> ?r2 = None then Exited 0 else Exited 2)"
    using t f shutdownUsingNodeManager_eq [of w c "tr1 @ caught e"]
    by (auto simp: caught_def Let_def split: option.splits)
  then show ?thesis by blast
qed

lemma iteration_cases:
  obtains (stopped) pre cs' t where
      "approach c cs pre cs'"
      "connect_loop (Suc n) w c True cs tr
       = (tr @ pre @ calling c @ [shutdown_call c t None,
                                  Print ''Shutdown: Successfully shutdown the server''],
          Val ())"
  | (waiting) es where
      "cohExists c" "list_all is_poll es"
      "connect_loop (Suc n) w c True cs tr = (tr @ connected c @ es, OutOfFuel)"
  | (retry) a e where
      "attempt_failed c cs a False" "cohExists c"
      "connect_loop (Suc n) w c True cs tr
       = connect_loop n w c True False (tr @ a @ caught e @ sleeping)"
  | (fallback) a cs' e r1 r2 where
      "attempt_failed c cs a cs'" "\<not> cohExists c \<or> cs'"
      "connect_loop (Suc n) w c True cs tr
       = (tr @ a @ caught e @ nm_events c r1 r2,
          if r1 = None \<and> r2 = None then Exited 0 else Exited 2)"
proof -
  note rules = that
  have raised: thesis
    if t: "connect_try n w c cs tr = (tr @ a, cs', Raised e)" and a: "attempt_failed c cs a cs'"
    for a cs' e
  proof (cases "cohExists c \<and> \<not> cs'")
    case True
    with connect_loop_retry [OF t] a show ?thesis
      by (intro rules(3) [of a e]) simp_all
  next
    case False
    with connect_loop_fallback [OF t] obtain r1 r2 where
      "connect_loop (Suc n) w c True cs tr
       = ((tr @ a) @ caught e @ nm_events c r1 r2,
          if r1 = None \<and> r2 = None then Exited 0 else Exited 2)"
      by blast
    with False a show ?thesis
      by (intro rules(4) [of a cs' e r1 r2]) auto
  qed
  show ?thesis
  proof (cases rule: attempt_cases [where n = n and w = w and c = c and cs = cs and tr = tr])
    case (refused e)
    show ?thesis
      by (rule raised [of "connecting c (Some e)" cs e])
        (use refused in \<open>auto simp: attempt_failed_def\<close>)
  next
    case (unsafe es e)
    show ?thesis
      by (rule raised [of "connected c @ es" cs e])
        (use unsafe in \<open>auto simp: attempt_failed_def\<close>)
  next
    case (waiting es)
    then show ?thesis
      using connect_loop_waiting [of n w c cs tr] by (intro rules(2) [of es]) simp_all
  next
    case (int_failed pre cs' e)
    show ?thesis
      by (rule raised [of "pre @ calling c" cs' e])
        (use int_failed in \<open>auto simp: attempt_failed_def\<close>)
  next
    case (failed pre cs' t e)
    show ?thesis
      by (rule raised [of "pre @ calling c @ [shutdown_call c t (Some e)]" cs' e])
        (use failed in \<open>auto simp: attempt_failed_def\<close>)
  next
    case (stopped pre cs' t)
    then show ?thesis
      using connect_loop_stopped [of n w c cs tr] by (intro rules(1) [of pre cs' t]) simp_all
  qed
qed

lemma poll_no_stop: "is_poll e \<Longrightarrow> no_stop e"
  by (cases e) simp_all

lemma prep_no_stop: "is_prep e \<Longrightarrow> no_stop e"
  by (cases e) simp_all

lemma polls_no_stop: "list_all is_poll es \<Longrightarrow> list_all no_stop es"
  by (auto simp: list_all_iff poll_no_stop)

lemma no_stop_facts:
  "list_all no_stop es \<Longrightarrow>
   \<not> list_ex is_stopped es \<and> \<not> list_ex nm_failed es \<and> \<not> list_ex is_NmConnect es"
proof (induction es)
  case Nil
  show ?case by simp
next
  case (Cons x es)
  then show ?case by (cases x rule: no_stop.cases) auto
qed

lemma approach_no_stop: "approach c cs pre cs' \<Longrightarrow> list_all no_stop pre"
  by (auto simp: approach_def connected_def connecting_def polls_no_stop split: if_splits)

lemma attempt_failed_no_stop: "attempt_failed c cs a cs' \<Longrightarrow> list_all no_stop a"
  by (auto simp: attempt_failed_def connected_def connecting_def calling_def shutdown_call_def
      polls_no_stop approach_no_stop)

lemma nm_events_facts:
  "list_ex is_stopped (nm_events c r1 r2) = (r1 = None \<and> r2 = None)"
  "list_ex nm_failed (nm_events c r1 r2) = (\<not> (r1 = None \<and> r2 = None))"
  "list_ex is_NmConnect (nm_events c r1 r2)"
  by (auto simp: nm_events_def split: option.splits)

lemma connect_loop_verdict:
  "list_all no_stop tr \<Longrightarrow>
   verdict (fst (connect_loop n w c True cs tr)) (snd (connect_loop n w c True cs tr))"
proof (induction n arbitrary: tr cs)
  case 0
  then show ?case
    using no_stop_facts [of tr] by (simp add: verdict_def)
next
  case (Suc n)
  note clean = no_stop_facts [OF Suc.prems]
  show ?case
  proof (cases rule: iteration_cases [where n = n and w = w and c = c and cs = cs and tr = tr])
    case (stopped pre cs' t)
    from approach_no_stop [OF stopped(1)] have "list_all no_stop (pre @ calling c)"
      by (simp add: calling_def)
    from no_stop_facts [OF this] show ?thesis
      unfolding stopped(2) using clean by (simp add: verdict_def shutdown_call_def)
  next
    case (waiting es)
    from polls_no_stop [OF waiting(2)] have "list_all no_stop (connected c @ es)"
      by (simp add: connected_def connecting_def)
    from no_stop_facts [OF this] show ?thesis
      unfolding waiting(3) using clean by (simp add: verdict_def)
  next
    case (retry a e)
    have "list_all no_stop (tr @ a @ caught e @ sleeping)"
      using Suc.prems attempt_failed_no_stop [OF retry(1)]
      by (simp add: caught_def sleeping_def)
    from Suc.IH [OF this] show ?thesis
      unfolding retry(3) .
  next
    case (fallback a cs' e r1 r2)
    have "list_all no_stop (a @ caught e)"
      using attempt_failed_no_stop [OF fallback(1)] by (simp add: caught_def)
    from no_stop_facts [OF this] show ?thesis
      unfolding fallback(3) using clean nm_events_facts [of c r1 r2]
      by (auto simp: verdict_def)
  qed
qed

text \<open>
  C9. In every run of the script: when the server was stopped (a \<open>shutdown\<close> call or an
  \<open>nmKill\<close> call returned normally) the process exits with status 0; when the fallback
  failed (\<open>nmConnect\<close> or \<open>nmKill\<close> raised) it exits with status 2; and once the
  fallback is entered the process exits, with one of the two.
\<close>

theorem exit_status:
  "main n w = (tr, out) \<Longrightarrow>
   (list_ex is_stopped tr \<longrightarrow> out = Exited 0)
   \<and> (list_ex nm_failed tr \<longrightarrow> out = Exited 2)
   \<and> (list_ex is_NmConnect tr \<longrightarrow> out = Exited 0 \<or> out = Exited 2)"
proof -
  assume m: "main n w = (tr, out)"
  obtain tr1 o1 where s: "startup w = (tr1, o1)" by (cases "startup w")
  have "list_all is_prep tr1"
    using startup_emits [of w] s by (simp add: emits_def)
  then have p: "list_all no_stop tr1"
    by (auto simp: list_all_iff prep_no_stop)
  show ?thesis
  proof (cases o1)
    case (Val c)
    obtain tr2 o2 where l: "connect_loop n w c True False tr1 = (tr2, o2)"
      by (cases "connect_loop n w c True False tr1")
    have v: "verdict tr2 o2"
      using connect_loop_verdict [OF p, of n w c False] l by simp
    have "main n w = (tr2, case o2 of Val u \<Rightarrow> Exited 0 | other \<Rightarrow> other)"
      unfolding main_def s Val and_then_simps l by (cases o2) simp_all
    with m have "tr = tr2" "out = (case o2 of Val u \<Rightarrow> Exited 0 | other \<Rightarrow> other)"
      by simp_all
    with v show ?thesis
      by (cases o2) (auto simp: verdict_def)
  next
    case (Raised e)
    with m s have "tr = tr1" by (simp add: main_def)
    with no_stop_facts [OF p] show ?thesis by simp
  next
    case (Exited k)
    with m s have "tr = tr1" by (simp add: main_def)
    with no_stop_facts [OF p] show ?thesis by simp
  next
    case OutOfFuel
    with m s have "tr = tr1" by (simp add: main_def)
    with no_stop_facts [OF p] show ?thesis by simp
  qed
qed

theorem exit_status_witness:
  "list_ex is_stopped (fst (main 3 world_admin))
   \<and> snd (main 3 world_admin) = Exited 0
   \<and> list_ex is_NmConnect (fst (main 3 world_refused))
   \<and> list_ex is_stopped (fst (main 3 world_refused))
   \<and> snd (main 3 world_refused) = Exited 0
   \<and> list_ex nm_failed (fst (main 3 world_dead))
   \<and> snd (main 3 world_dead) = Exited 2"
proof -
  have h1: "list_ex is_stopped (fst (main 3 world_admin))" by code_simp
  have h2: "list_ex is_NmConnect (fst (main 3 world_refused))" by code_simp
  have h3: "list_ex is_stopped (fst (main 3 world_refused))" by code_simp
  have h4: "list_ex nm_failed (fst (main 3 world_dead))" by code_simp
  show ?thesis
    using h1 h2 h3 h4
      exit_status [of 3 world_admin "fst (main 3 world_admin)" "snd (main 3 world_admin)"]
      exit_status [of 3 world_refused "fst (main 3 world_refused)" "snd (main 3 world_refused)"]
      exit_status [of 3 world_dead "fst (main 3 world_dead)" "snd (main 3 world_dead)"]
    by simp
qed

subsection \<open>No shutdown before the safety wait returned\<close>

lemma shutdown_guarded_append:
  "shutdown_guarded s (xs @ ys)
   = (shutdown_guarded s xs \<and> shutdown_guarded (foldl guard_step s xs) ys)"
  by (induction xs arbitrary: s) auto

lemma no_Shutdown_guarded: "list_all (\<lambda>e. \<not> is_Shutdown e) es \<Longrightarrow> shutdown_guarded s es"
  by (induction es arbitrary: s) auto

lemma poll_not_Shutdown: "is_poll e \<Longrightarrow> \<not> is_Shutdown e"
  by (cases e) simp_all

lemma prep_not_Shutdown: "is_prep e \<Longrightarrow> \<not> is_Shutdown e"
  by (cases e) simp_all

lemma polls_guarded: "list_all is_poll es \<Longrightarrow> shutdown_guarded s es"
  by (rule no_Shutdown_guarded) (auto simp: list_all_iff poll_not_Shutdown)

lemma polls_keep_safe: "list_all is_poll es \<Longrightarrow> foldl guard_step True es"
proof (induction es)
  case Nil
  show ?case by simp
next
  case (Cons x es)
  then show ?case by (cases x) simp_all
qed

lemma safe_after_wait: "foldl guard_step s (xs @ [Print SAFE_MSG] @ calling c)"
  by (simp add: calling_def)

lemma approach_guarded:
  "cohExists c \<Longrightarrow> approach c cs pre cs' \<Longrightarrow>
   shutdown_guarded s (pre @ calling c @ [shutdown_call c t r]) \<and> shutdown_guarded s (pre @ calling c)"
proof -
  assume "cohExists c" "approach c cs pre cs'"
  then obtain es where es: "list_all is_poll es" "pre = connected c @ es @ [Print SAFE_MSG]"
    by (auto simp: approach_def)
  define X where "X = (connected c @ es) @ [Print SAFE_MSG] @ calling c"
  have g: "shutdown_guarded s X"
    unfolding X_def
    by (rule no_Shutdown_guarded)
      (use es(1) in \<open>auto simp: connected_def connecting_def calling_def list_all_iff poll_not_Shutdown\<close>)
  have f: "foldl guard_step s X"
    unfolding X_def by (rule safe_after_wait)
  have h: "shutdown_guarded s (X @ [shutdown_call c t r])"
    using g f by (simp add: shutdown_guarded_append shutdown_call_def)
  have e1: "pre @ calling c = X"
    using es(2) by (simp add: X_def)
  have e2: "pre @ calling c @ [shutdown_call c t r] = X @ [shutdown_call c t r]"
    using es(2) by (simp add: X_def)
  show ?thesis unfolding e2 e1 using g h by blast
qed

lemma attempt_failed_guarded:
  "cohExists c \<Longrightarrow> attempt_failed c cs a cs' \<Longrightarrow> shutdown_guarded s a"
  unfolding attempt_failed_def
proof (elim disjE exE conjE)
  fix e assume "a = connecting c (Some e)"
  then show ?thesis by (simp add: connecting_def)
next
  fix es assume "list_all is_poll es" "a = connected c @ es"
  then show ?thesis
    by (intro no_Shutdown_guarded)
      (auto simp: connected_def connecting_def list_all_iff poll_not_Shutdown)
next
  fix pre assume "cohExists c" "approach c cs pre cs'" "a = pre @ calling c"
  then show ?thesis using approach_guarded [of c cs pre cs' s] by simp
next
  fix pre t e assume "cohExists c" "approach c cs pre cs'"
    "a = pre @ calling c @ [shutdown_call c t (Some e)]"
  then show ?thesis using approach_guarded [of c cs pre cs' s t "Some e"] by simp
qed

lemma connect_loop_guarded:
  "cohExists c \<Longrightarrow> shutdown_guarded s tr \<Longrightarrow>
   shutdown_guarded s (fst (connect_loop n w c True cs tr))"
proof (induction n arbitrary: tr cs)
  case 0
  then show ?case by simp
next
  case (Suc n)
  show ?case
  proof (cases rule: iteration_cases [where n = n and w = w and c = c and cs = cs and tr = tr])
    case (stopped pre cs' t)
    have "shutdown_guarded (foldl guard_step s tr) (pre @ calling c @ [shutdown_call c t None])"
      using approach_guarded [OF Suc.prems(1) stopped(1)] by blast
    then have "shutdown_guarded (foldl guard_step s tr)
        ((pre @ calling c @ [shutdown_call c t None])
         @ [Print ''Shutdown: Successfully shutdown the server''])"
      unfolding shutdown_guarded_append [of _ "pre @ calling c @ [shutdown_call c t None]"]
      by simp
    then show ?thesis
      unfolding stopped(2) using Suc.prems(2) by (simp add: shutdown_guarded_append)
  next
    case (waiting es)
    have "shutdown_guarded (foldl guard_step s tr) (connected c @ es)"
      by (rule no_Shutdown_guarded)
        (use waiting(2) in \<open>auto simp: connected_def connecting_def list_all_iff poll_not_Shutdown\<close>)
    then show ?thesis
      unfolding waiting(3) using Suc.prems(2) by (simp add: shutdown_guarded_append)
  next
    case (retry a e)
    have "shutdown_guarded (foldl guard_step s tr) ((a @ caught e) @ sleeping)"
      unfolding shutdown_guarded_append [of _ "a @ caught e"] shutdown_guarded_append [of _ a]
      using attempt_failed_guarded [OF Suc.prems(1) retry(1)]
      by (simp add: caught_def sleeping_def)
    then have "shutdown_guarded s (tr @ a @ caught e @ sleeping)"
      using Suc.prems(2) by (simp add: shutdown_guarded_append)
    from Suc.IH [OF Suc.prems(1) this] show ?thesis
      unfolding retry(3) .
  next
    case (fallback a cs' e r1 r2)
    have "shutdown_guarded (foldl guard_step s tr) (a @ (caught e @ nm_events c r1 r2))"
      unfolding shutdown_guarded_append [of _ a]
      using attempt_failed_guarded [OF Suc.prems(1) fallback(1)]
      by (auto simp: caught_def nm_events_def intro!: no_Shutdown_guarded split: option.splits)
    then show ?thesis
      unfolding fallback(3) using Suc.prems(2) by (simp add: shutdown_guarded_append)
  qed
qed

text \<open>
  C1. With a Coherence cluster: in a connection attempt in which the shutdown call is
  issued, the call of \<open>waitUntilCoherenceSafe\<close> of that attempt returned, and the
  shutdown call starts from the trace it left. In a whole run, every shutdown call comes
  after the message that Coherence is safe, printed since the last \<open>connect\<close>.
\<close>

theorem shutdown_after_safety:
  "cohExists c \<Longrightarrow>
   (list_ex is_Shutdown (drop (length tr) (fst (connect_try n w c cs tr))) \<longrightarrow>
      snd (waitUntilCoherenceSafe n w (tr @ connected c)) = Val ()
      \<and> fst (connect_try n w c cs tr)
          = fst (call_shutdown w c (fst (waitUntilCoherenceSafe n w (tr @ connected c)))))
   \<and> (startup w = (tr1, Val c) \<longrightarrow> shutdown_guarded False (fst (main n w)))"
proof -
  assume coh: "cohExists c"
  have a: "snd (waitUntilCoherenceSafe n w (tr @ connected c)) = Val ()
      \<and> fst (connect_try n w c cs tr)
          = fst (call_shutdown w c (fst (waitUntilCoherenceSafe n w (tr @ connected c))))"
    if s: "list_ex is_Shutdown (drop (length tr) (fst (connect_try n w c cs tr)))"
  proof (cases "wlst_connect w (tr @ [Print (''Shutdown: Connecting to server at '' @ connect_url c)])
                (connect_url c)")
    case (Some e)
    then have "fst (connect_try n w c cs tr) = tr @ connecting c (Some e)"
      by (simp add: connect_try_def connecting_def Let_def)
    with s show ?thesis by (simp add: connecting_def)
  next
    case None
    obtain tr4 o4 where wt: "waitUntilCoherenceSafe n w (tr @ connected c) = (tr4, o4)"
      by (cases "waitUntilCoherenceSafe n w (tr @ connected c)")
    from waitUntilCoherenceSafe_result [OF wt]
    obtain es where es: "tr4 = (tr @ connected c) @ es" "list_all is_poll es"
      by (auto simp: wait_result_def)
    have ns: "\<not> list_ex is_Shutdown (connected c @ es)"
      using es(2) by (auto simp: connected_def connecting_def list_ex_iff list_all_iff
          poll_not_Shutdown)
    have t: "connect_try n w c cs tr
        = (case o4 of Val u \<Rightarrow> (fst (call_shutdown w c tr4), True, snd (call_shutdown w c tr4))
           | Raised e \<Rightarrow> (tr4, cs, Raised e) | Exited k \<Rightarrow> (tr4, cs, Exited k)
           | OutOfFuel \<Rightarrow> (tr4, cs, OutOfFuel))"
      using None coh wt
      by (cases o4) (simp_all add: connect_try_def connecting_def connected_def Let_def split_beta)
    show ?thesis
    proof (cases o4)
      case (Val u)
      with t wt show ?thesis by simp
    next
      case (Raised e)
      with t s es(1) ns show ?thesis by simp
    next
      case (Exited k)
      with t s es(1) ns show ?thesis by simp
    next
      case OutOfFuel
      with t s es(1) ns show ?thesis by simp
    qed
  qed
  have b: "shutdown_guarded False (fst (main n w))" if s: "startup w = (tr1, Val c)"
  proof -
    have "list_all is_prep tr1"
      using startup_emits [of w] s by (simp add: emits_def)
    then have "shutdown_guarded False tr1"
      by (intro no_Shutdown_guarded) (auto simp: list_all_iff prep_not_Shutdown)
    from connect_loop_guarded [OF coh this, of n w False]
    have g: "shutdown_guarded False (fst (connect_loop n w c True False tr1))" .
    obtain tr2 o2 where l: "connect_loop n w c True False tr1 = (tr2, o2)"
      by (cases "connect_loop n w c True False tr1")
    have "fst (main n w) = tr2"
      unfolding main_def s and_then_simps l by (cases o2) simp_all
    with g l show ?thesis by simp
  qed
  show ?thesis using a b by blast
qed

theorem shutdown_after_safety_witness:
  "cohExists cfg_admin
   \<and> list_ex is_Shutdown
       (drop (length (startup_events @ [Print ''Shutdown: Coherence cluster exists'']))
          (fst (connect_try 3 world_admin cfg_admin False
                  (startup_events @ [Print ''Shutdown: Coherence cluster exists'']))))
   \<and> snd (waitUntilCoherenceSafe 3 world_admin
            ((startup_events @ [Print ''Shutdown: Coherence cluster exists''])
             @ connected cfg_admin)) = Val ()
   \<and> startup world_admin
       = (startup_events @ [Print ''Shutdown: Coherence cluster exists''], Val cfg_admin)
   \<and> list_ex is_Shutdown (fst (main 3 world_admin))
   \<and> shutdown_guarded False (fst (main 3 world_admin))"
proof -
  have c: "cohExists cfg_admin" by (simp add: cfg_admin_def)
  have h: "list_ex is_Shutdown
       (drop (length (startup_events @ [Print ''Shutdown: Coherence cluster exists'']))
          (fst (connect_try 3 world_admin cfg_admin False
                  (startup_events @ [Print ''Shutdown: Coherence cluster exists'']))))"
    by code_simp
  have m: "list_ex is_Shutdown (fst (main 3 world_admin))" by code_simp
  show ?thesis
    using c h m startup_admin
      shutdown_after_safety [OF c, of "startup_events @ [Print ''Shutdown: Coherence cluster exists'']"
        3 world_admin False "startup_events @ [Print ''Shutdown: Coherence cluster exists'']"]
    by simp
qed

subsection \<open>Retrying while Coherence is not safe\<close>

lemma fallback_after_safe_append:
  "fallback_after_safe s (xs @ ys)
   = (fallback_after_safe s xs \<and> fallback_after_safe (foldl safety_seen s xs) ys)"
  by (induction xs arbitrary: s) simp_all

lemma seen_True: "foldl safety_seen True es"
  by (induction es) simp_all

lemma seen_snoc: "foldl safety_seen s (xs @ Print SAFE_MSG # ys)"
  by (simp add: seen_True)

lemma seen_more: "foldl safety_seen s xs \<Longrightarrow> foldl safety_seen s (xs @ ys)"
  by (simp add: seen_True)

lemma fallback_after_safe_True: "fallback_after_safe True es"
  by (induction es) simp_all

lemma fallback_after_safe_extend:
  "fallback_after_safe s tr \<Longrightarrow> \<not> list_ex is_NmConnect xs \<Longrightarrow> fallback_after_safe s (tr @ xs)"
proof -
  have "\<not> list_ex is_NmConnect xs \<Longrightarrow> fallback_after_safe s' xs" for s'
    by (induction xs arbitrary: s') simp_all
  then show "fallback_after_safe s tr \<Longrightarrow> \<not> list_ex is_NmConnect xs \<Longrightarrow> ?thesis"
    by (simp add: fallback_after_safe_append)
qed

lemma fallback_after_safe_seen:
  "fallback_after_safe s tr \<Longrightarrow> foldl safety_seen s tr \<Longrightarrow> fallback_after_safe s (tr @ xs)"
  by (simp add: fallback_after_safe_append fallback_after_safe_True)

lemma approach_seen: "cohExists c \<Longrightarrow> approach c cs pre cs' \<Longrightarrow> foldl safety_seen s (tr @ pre @ xs)"
proof -
  assume "cohExists c" "approach c cs pre cs'"
  then obtain es where "pre = connected c @ es @ [Print SAFE_MSG]"
    by (auto simp: approach_def)
  then have "tr @ pre @ xs = (tr @ connected c @ es) @ Print SAFE_MSG # xs" by simp
  then show ?thesis using seen_snoc [of s "tr @ connected c @ es" xs] by simp
qed

lemma attempt_failed_seen:
  "cohExists c \<Longrightarrow> attempt_failed c cs a True \<Longrightarrow> (cs \<longrightarrow> foldl safety_seen s tr) \<Longrightarrow>
   foldl safety_seen s (tr @ a @ xs)"
  unfolding attempt_failed_def
proof (elim disjE exE conjE)
  fix e assume "True = cs" "cs \<longrightarrow> foldl safety_seen s tr"
  then show ?thesis using seen_more [of s tr "a @ xs"] by simp
next
  fix es assume "True = cs" "cs \<longrightarrow> foldl safety_seen s tr"
  then show ?thesis using seen_more [of s tr "a @ xs"] by simp
next
  fix pre assume "cohExists c" "approach c cs pre True" "a = pre @ calling c"
  then show ?thesis using approach_seen [of c cs pre True s tr "calling c @ xs"] by simp
next
  fix pre t e assume "cohExists c" "approach c cs pre True"
    "a = pre @ calling c @ [shutdown_call c t (Some e)]"
  then show ?thesis
    using approach_seen [of c cs pre True s tr "calling c @ [shutdown_call c t (Some e)] @ xs"]
    by simp
qed

lemma connect_loop_fallback_after_safe:
  "cohExists c \<Longrightarrow> fallback_after_safe s tr \<Longrightarrow> (cs \<longrightarrow> foldl safety_seen s tr) \<Longrightarrow>
   fallback_after_safe s (fst (connect_loop n w c True cs tr))"
proof (induction n arbitrary: tr cs)
  case 0
  then show ?case by simp
next
  case (Suc n)
  show ?case
  proof (cases rule: iteration_cases [where n = n and w = w and c = c and cs = cs and tr = tr])
    case (stopped pre cs' t)
    from approach_no_stop [OF stopped(1)]
    have "list_all no_stop (pre @ calling c)" by (simp add: calling_def)
    from no_stop_facts [OF this]
    have "\<not> list_ex is_NmConnect (pre @ calling c @ [shutdown_call c t None,
                                  Print ''Shutdown: Successfully shutdown the server''])"
      by (simp add: shutdown_call_def)
    from fallback_after_safe_extend [OF Suc.prems(2) this] show ?thesis
      unfolding stopped(2) by simp
  next
    case (waiting es)
    from polls_no_stop [OF waiting(2)] have "list_all no_stop (connected c @ es)"
      by (simp add: connected_def connecting_def)
    from no_stop_facts [OF this] have "\<not> list_ex is_NmConnect (connected c @ es)" by blast
    from fallback_after_safe_extend [OF Suc.prems(2) this] show ?thesis
      unfolding waiting(3) by simp
  next
    case (retry a e)
    have "list_all no_stop (a @ caught e @ sleeping)"
      using attempt_failed_no_stop [OF retry(1)] by (simp add: caught_def sleeping_def)
    from no_stop_facts [OF this] have "\<not> list_ex is_NmConnect (a @ caught e @ sleeping)" by blast
    from fallback_after_safe_extend [OF Suc.prems(2) this]
    have "fallback_after_safe s (tr @ a @ caught e @ sleeping)" .
    from Suc.IH [OF Suc.prems(1) this] show ?thesis
      unfolding retry(3) by simp
  next
    case (fallback a cs' e r1 r2)
    with Suc.prems(1) have cs': "cs'" by simp
    have "list_all no_stop (a @ caught e)"
      using attempt_failed_no_stop [OF fallback(1)] by (simp add: caught_def)
    from no_stop_facts [OF this] have "\<not> list_ex is_NmConnect (a @ caught e)" by blast
    from fallback_after_safe_extend [OF Suc.prems(2) this]
    have g: "fallback_after_safe s (tr @ a @ caught e)" .
    have "foldl safety_seen s (tr @ a @ caught e)"
      using attempt_failed_seen [OF Suc.prems(1) _ Suc.prems(3), of a "caught e"] fallback(1) cs'
      by simp
    from fallback_after_safe_seen [OF g this, of "nm_events c r1 r2"] show ?thesis
      unfolding fallback(3) by simp
  qed
qed

lemma connect_loop_refused:
  "cohExists c \<Longrightarrow> \<forall>h url. wlst_connect w h url \<noteq> None \<Longrightarrow>
   snd (connect_loop n w c True False tr) = OutOfFuel
   \<and> length (filter is_Connect (fst (connect_loop n w c True False tr)))
       = length (filter is_Connect tr) + n
   \<and> list_ex is_NmConnect (fst (connect_loop n w c True False tr)) = list_ex is_NmConnect tr"
proof (induction n arbitrary: tr)
  case 0
  show ?case by simp
next
  case (Suc n)
  obtain e where e: "wlst_connect w (tr @ [Print (''Shutdown: Connecting to server at '' @ connect_url c)])
                (connect_url c) = Some e"
    using Suc.prems(2) by (metis option.exhaust)
  then have t: "connect_try n w c False tr = (tr @ connecting c (Some e), False, Raised e)"
    by (simp add: connect_try_def connecting_def Let_def)
  from connect_loop_retry [OF t Suc.prems(1)]
  have r: "connect_loop (Suc n) w c True False tr
        = connect_loop n w c True False ((tr @ connecting c (Some e)) @ caught e @ sleeping)"
    by simp
  show ?case
    unfolding r
    using Suc.IH [OF Suc.prems, of "(tr @ connecting c (Some e)) @ caught e @ sleeping"]
    by (simp add: connecting_def caught_def sleeping_def)
qed

lemma connected_head: "\<exists>r es. tr @ connected c @ xs = tr @ connecting c r @ es"
proof -
  have "tr @ connected c @ xs
        = tr @ connecting c None @ ([Print ''Shutdown: Successfully connected to server''] @ xs)"
    by (simp add: connected_def)
  then show ?thesis by blast
qed

lemma approach_head: "approach c cs pre cs' \<Longrightarrow> \<exists>r es. tr @ pre @ xs = tr @ connecting c r @ es"
proof (cases "cohExists c")
  case True
  assume "approach c cs pre cs'"
  with True obtain es where "pre = connected c @ es @ [Print SAFE_MSG]"
    by (auto simp: approach_def)
  then have "tr @ pre @ xs = tr @ connected c @ (es @ [Print SAFE_MSG] @ xs)" by simp
  then show ?thesis using connected_head [of tr c "es @ [Print SAFE_MSG] @ xs"] by simp
next
  case False
  assume "approach c cs pre cs'"
  with False have "pre = connected c" by (simp add: approach_def)
  then show ?thesis using connected_head [of tr c xs] by simp
qed

lemma attempt_head:
  "attempt_failed c cs a cs' \<Longrightarrow> \<exists>r es. tr @ a @ xs = tr @ connecting c r @ es"
  unfolding attempt_failed_def
proof (elim disjE exE conjE)
  fix e assume "a = connecting c (Some e)"
  then show ?thesis by blast
next
  fix es assume "a = connected c @ es"
  then show ?thesis using connected_head [of tr c "es @ xs"] by simp
next
  fix pre assume "approach c cs pre cs'" "a = pre @ calling c"
  then show ?thesis using approach_head [of c cs pre cs' tr "calling c @ xs"] by simp
next
  fix pre t e assume "approach c cs pre cs'" "a = pre @ calling c @ [shutdown_call c t (Some e)]"
  then show ?thesis
    using approach_head [of c cs pre cs' tr "calling c @ [shutdown_call c t (Some e)] @ xs"]
    by simp
qed

lemma connect_loop_head:
  "\<exists>r es. fst (connect_loop (Suc n) w c True cs tr) = tr @ connecting c r @ es"
proof (cases rule: iteration_cases [where n = n and w = w and c = c and cs = cs and tr = tr])
  case (stopped pre cs' t)
  show ?thesis
    unfolding stopped(2) fst_conv by (rule approach_head [OF stopped(1)])
next
  case (waiting es)
  show ?thesis unfolding waiting(3) fst_conv by (rule connected_head)
next
  case (retry a e)
  obtain es' where "fst (connect_loop n w c True False (tr @ a @ caught e @ sleeping))
      = tr @ a @ (caught e @ sleeping @ es')"
    using connect_loop_uses [of c "tr @ a @ caught e @ sleeping" n w True False]
    by (auto simp: emits_def)
  then show ?thesis
    unfolding retry(3) using attempt_head [OF retry(1), of tr "caught e @ sleeping @ es'"] by simp
next
  case (fallback a cs' e r1 r2)
  show ?thesis
    unfolding fallback(3) fst_conv by (rule attempt_head [OF fallback(1)])
qed

text \<open>
  C4. With a Coherence cluster: an attempt that raises while \<open>cohSafe\<close> is false is
  followed by the sleep of 10 and by the next iteration of the connect loop, which
  connects again. In a whole run the NodeManager fallback is entered only after the
  message that Coherence is safe. And when every \<open>connect\<close> fails, then for every bound
  \<open>n\<close> the loop is still running after \<open>n\<close> attempts and the fallback was not entered.
\<close>

theorem retry_while_unsafe:
  "cohExists c \<Longrightarrow>
   (connect_try (Suc n) w c cs tr = (tr1, False, Raised e) \<longrightarrow>
      connect_loop (Suc (Suc n)) w c True cs tr
        = connect_loop (Suc n) w c True False (tr1 @ caught e @ sleeping)
      \<and> (\<exists>r es. fst (connect_loop (Suc (Suc n)) w c True cs tr)
                  = tr1 @ caught e @ sleeping @ connecting c r @ es))
   \<and> (startup w = (tr0, Val c) \<longrightarrow> fallback_after_safe False (fst (main n w)))
   \<and> ((\<forall>h url. wlst_connect w h url \<noteq> None) \<longrightarrow>
        snd (connect_loop n w c True False tr) = OutOfFuel
        \<and> length (filter is_Connect (fst (connect_loop n w c True False tr)))
            = length (filter is_Connect tr) + n
        \<and> list_ex is_NmConnect (fst (connect_loop n w c True False tr))
            = list_ex is_NmConnect tr)"
proof -
  assume coh: "cohExists c"
  have a: "connect_loop (Suc (Suc n)) w c True cs tr
        = connect_loop (Suc n) w c True False (tr1 @ caught e @ sleeping)
      \<and> (\<exists>r es. fst (connect_loop (Suc (Suc n)) w c True cs tr)
                  = tr1 @ caught e @ sleeping @ connecting c r @ es)"
    if t: "connect_try (Suc n) w c cs tr = (tr1, False, Raised e)"
  proof -
    from connect_loop_retry [OF t coh]
    have r: "connect_loop (Suc (Suc n)) w c True cs tr
        = connect_loop (Suc n) w c True False (tr1 @ caught e @ sleeping)"
      by simp
    show ?thesis
      unfolding r using connect_loop_head [of n w c False "tr1 @ caught e @ sleeping"] by simp
  qed
  have b: "fallback_after_safe False (fst (main n w))" if s: "startup w = (tr0, Val c)"
  proof -
    have "list_all is_prep tr0"
      using startup_emits [of w] s by (simp add: emits_def)
    then have "list_all no_stop tr0"
      by (auto simp: list_all_iff prep_no_stop)
    from no_stop_facts [OF this] have "\<not> list_ex is_NmConnect tr0" by blast
    from fallback_after_safe_extend [of False "[]" tr0, OF _ this]
    have "fallback_after_safe False tr0" by simp
    from connect_loop_fallback_after_safe [OF coh this, of False n w]
    have g: "fallback_after_safe False (fst (connect_loop n w c True False tr0))" by simp
    obtain tr2 o2 where l: "connect_loop n w c True False tr0 = (tr2, o2)"
      by (cases "connect_loop n w c True False tr0")
    have "fst (main n w) = tr2"
      unfolding main_def s and_then_simps l by (cases o2) simp_all
    with g l show ?thesis by simp
  qed
  show ?thesis
    using a b connect_loop_refused [OF coh, of w n tr] by blast
qed

theorem retry_while_unsafe_witness:
  "cohExists cfg_admin
   \<and> connect_try (Suc (Suc (Suc (Suc 0)))) world_down cfg_admin False
         (startup_events @ [Print ''Shutdown: Coherence cluster exists''])
       = ((startup_events @ [Print ''Shutdown: Coherence cluster exists''])
            @ connecting cfg_admin (Some (Exn ''refused'')), False, Raised (Exn ''refused''))
   \<and> startup world_down
       = (startup_events @ [Print ''Shutdown: Coherence cluster exists''], Val cfg_admin)
   \<and> (\<forall>h url. wlst_connect world_down h url \<noteq> None)
   \<and> fallback_after_safe False (fst (main (Suc (Suc (Suc 0))) world_down))
   \<and> snd (connect_loop (Suc (Suc (Suc 0))) world_down cfg_admin True False
            (startup_events @ [Print ''Shutdown: Coherence cluster exists''])) = OutOfFuel
   \<and> length (filter is_Connect
        (fst (connect_loop (Suc (Suc (Suc 0))) world_down cfg_admin True False
                (startup_events @ [Print ''Shutdown: Coherence cluster exists''])))) = Suc (Suc (Suc 0))
   \<and> \<not> list_ex is_NmConnect
        (fst (connect_loop (Suc (Suc (Suc 0))) world_down cfg_admin True False
                (startup_events @ [Print ''Shutdown: Coherence cluster exists''])))"
proof -
  have c: "cohExists cfg_admin" by (simp add: cfg_admin_def)
  have t: "connect_try (Suc (Suc (Suc (Suc 0)))) world_down cfg_admin False
         (startup_events @ [Print ''Shutdown: Coherence cluster exists''])
       = ((startup_events @ [Print ''Shutdown: Coherence cluster exists''])
            @ connecting cfg_admin (Some (Exn ''refused'')), False, Raised (Exn ''refused''))"
    by (simp add: connect_try_def connecting_def world_down_def Let_def)
  have s: "startup world_down
       = (startup_events @ [Print ''Shutdown: Coherence cluster exists''], Val cfg_admin)"
    by code_simp
  have d: "\<forall>h url. wlst_connect world_down h url \<noteq> None"
    by (simp add: world_down_def)
  have k: "length (filter is_Connect (startup_events @ [Print ''Shutdown: Coherence cluster exists''])) = 0"
    "\<not> list_ex is_NmConnect (startup_events @ [Print ''Shutdown: Coherence cluster exists''])"
    by (simp_all add: startup_events_def)
  note R = retry_while_unsafe [OF c, of "Suc (Suc (Suc 0))" world_down False
        "startup_events @ [Print ''Shutdown: Coherence cluster exists'']"
        "(startup_events @ [Print ''Shutdown: Coherence cluster exists''])
            @ connecting cfg_admin (Some (Exn ''refused''))" "Exn ''refused''"
        "startup_events @ [Print ''Shutdown: Coherence cluster exists'']"]
  from R s have b: "fallback_after_safe False (fst (main (Suc (Suc (Suc 0))) world_down))"
    by blast
  from R d have l: "snd (connect_loop (Suc (Suc (Suc 0))) world_down cfg_admin True False
            (startup_events @ [Print ''Shutdown: Coherence cluster exists''])) = OutOfFuel
   \<and> length (filter is_Connect
        (fst (connect_loop (Suc (Suc (Suc 0))) world_down cfg_admin True False
                (startup_events @ [Print ''Shutdown: Coherence cluster exists'']))))
      = length (filter is_Connect (startup_events @ [Print ''Shutdown: Coherence cluster exists'']))
        + Suc (Suc (Suc 0))
   \<and> list_ex is_NmConnect
        (fst (connect_loop (Suc (Suc (Suc 0))) world_down cfg_admin True False
                (startup_events @ [Print ''Shutdown: Coherence cluster exists''])))
      = list_ex is_NmConnect (startup_events @ [Print ''Shutdown: Coherence cluster exists''])"
    by blast
  from l k have l1: "snd (connect_loop (Suc (Suc (Suc 0))) world_down cfg_admin True False
            (startup_events @ [Print ''Shutdown: Coherence cluster exists''])) = OutOfFuel"
    and l2: "length (filter is_Connect
        (fst (connect_loop (Suc (Suc (Suc 0))) world_down cfg_admin True False
                (startup_events @ [Print ''Shutdown: Coherence cluster exists''])))) = Suc (Suc (Suc 0))"
    and l3: "\<not> list_ex is_NmConnect
        (fst (connect_loop (Suc (Suc (Suc 0))) world_down cfg_admin True False
                (startup_events @ [Print ''Shutdown: Coherence cluster exists''])))"
    by (simp_all del: connect_loop.simps)
  show ?thesis
    by (intro conjI) (fact c t s d b l1 l2 l3)+
qed

subsection \<open>The fallback ends the run\<close>

lemma fallback_final_skip:
  "\<not> list_ex is_NmConnect xs \<Longrightarrow> fallback_final (xs @ ys) = fallback_final ys"
  by (induction xs) simp_all

lemma fallback_final_none: "\<not> list_ex is_NmConnect xs \<Longrightarrow> fallback_final xs"
  using fallback_final_skip [of xs "[]"] by simp

lemma fallback_final_nm_events: "fallback_final (nm_events c r1 r2)"
  by (simp add: nm_events_def split: option.splits)

lemma fallback_final_once: "fallback_final tr \<Longrightarrow> length (filter is_NmConnect tr) \<le> 1"
proof (induction tr)
  case Nil
  show ?case by simp
next
  case (Cons x tr)
  show ?case
  proof (cases "is_NmConnect x")
    case True
    with Cons.prems have "\<not> list_ex graceful_call tr" by simp
    then have "filter is_NmConnect tr = []"
    proof (induction tr)
      case Nil
      show ?case by simp
    next
      case (Cons y ys)
      then show ?case by (cases y) simp_all
    qed
    with True show ?thesis by simp
  next
    case False
    with Cons show ?thesis by simp
  qed
qed

lemma connect_loop_fallback_final:
  "\<not> list_ex is_NmConnect tr \<Longrightarrow> fallback_final (fst (connect_loop n w c True cs tr))"
proof (induction n arbitrary: tr cs)
  case 0
  then show ?case by (simp add: fallback_final_none)
next
  case (Suc n)
  show ?case
  proof (cases rule: iteration_cases [where n = n and w = w and c = c and cs = cs and tr = tr])
    case (stopped pre cs' t)
    from approach_no_stop [OF stopped(1)]
    have "list_all no_stop (pre @ calling c)" by (simp add: calling_def)
    from no_stop_facts [OF this]
    have "\<not> list_ex is_NmConnect (tr @ pre @ calling c @ [shutdown_call c t None,
                                  Print ''Shutdown: Successfully shutdown the server''])"
      using Suc.prems by (simp add: shutdown_call_def)
    from fallback_final_none [OF this] show ?thesis
      unfolding stopped(2) by simp
  next
    case (waiting es)
    from polls_no_stop [OF waiting(2)] have "list_all no_stop (connected c @ es)"
      by (simp add: connected_def connecting_def)
    from no_stop_facts [OF this] have "\<not> list_ex is_NmConnect (tr @ connected c @ es)"
      using Suc.prems by simp
    from fallback_final_none [OF this] show ?thesis
      unfolding waiting(3) by simp
  next
    case (retry a e)
    have "list_all no_stop (a @ caught e @ sleeping)"
      using attempt_failed_no_stop [OF retry(1)] by (simp add: caught_def sleeping_def)
    from no_stop_facts [OF this] have "\<not> list_ex is_NmConnect (tr @ a @ caught e @ sleeping)"
      using Suc.prems by simp
    from Suc.IH [OF this] show ?thesis
      unfolding retry(3) by simp
  next
    case (fallback a cs' e r1 r2)
    have "list_all no_stop (a @ caught e)"
      using attempt_failed_no_stop [OF fallback(1)] by (simp add: caught_def)
    from no_stop_facts [OF this] have "\<not> list_ex is_NmConnect (tr @ a @ caught e)"
      using Suc.prems by simp
    from fallback_final_skip [OF this, of "nm_events c r1 r2"] show ?thesis
      unfolding fallback(3) by (simp add: fallback_final_nm_events)
  qed
qed

lemma main_fallback_final: "fallback_final (fst (main n w))"
proof -
  obtain tr1 o1 where s: "startup w = (tr1, o1)" by (cases "startup w")
  have "list_all is_prep tr1"
    using startup_emits [of w] s by (simp add: emits_def)
  then have "list_all no_stop tr1"
    by (auto simp: list_all_iff prep_no_stop)
  from no_stop_facts [OF this] have p: "\<not> list_ex is_NmConnect tr1" by blast
  show ?thesis
  proof (cases o1)
    case (Val c)
    obtain tr2 o2 where l: "connect_loop n w c True False tr1 = (tr2, o2)"
      by (cases "connect_loop n w c True False tr1")
    have "fst (main n w) = tr2"
      unfolding main_def s Val and_then_simps l by (cases o2) simp_all
    with connect_loop_fallback_final [OF p, of n w c False] l show ?thesis by simp
  next
    case (Raised e)
    then have "fst (main n w) = tr1" unfolding main_def s by simp
    with fallback_final_none [OF p] show ?thesis by simp
  next
    case (Exited k)
    then have "fst (main n w) = tr1" unfolding main_def s by simp
    with fallback_final_none [OF p] show ?thesis by simp
  next
    case OutOfFuel
    then have "fst (main n w) = tr1" unfolding main_def s by simp
    with fallback_final_none [OF p] show ?thesis by simp
  qed
qed

text \<open>
  C5. When an attempt raises and there is no Coherence cluster, or \<open>cohSafe\<close> is true by
  then, the handler prints the exception and goes straight to the NodeManager fallback:
  the loop ends there, with \<open>nmConnect\<close> called once and no \<open>connect\<close>, and the process
  exits with status 0 or 2. In a whole run nothing of the graceful path (no \<open>connect\<close>,
  no \<open>shutdown\<close>) and no second \<open>nmConnect\<close> follows an \<open>nmConnect\<close>.
\<close>

theorem fallback_once:
  "((\<not> cohExists c \<or> cs1) \<and> connect_try n w c cs tr = (tr1, cs1, Raised e) \<longrightarrow>
      (\<exists>r1 r2. connect_loop (Suc n) w c True cs tr
                 = (tr1 @ caught e @ nm_events c r1 r2,
                    if r1 = None \<and> r2 = None then Exited 0 else Exited 2)
               \<and> length (filter is_NmConnect (caught e @ nm_events c r1 r2)) = 1
               \<and> \<not> list_ex is_Connect (caught e @ nm_events c r1 r2)))
   \<and> fallback_final (fst (main n w))
   \<and> length (filter is_NmConnect (fst (main n w))) \<le> 1"
proof -
  have a: "\<exists>r1 r2. connect_loop (Suc n) w c True cs tr
                 = (tr1 @ caught e @ nm_events c r1 r2,
                    if r1 = None \<and> r2 = None then Exited 0 else Exited 2)
               \<and> length (filter is_NmConnect (caught e @ nm_events c r1 r2)) = 1
               \<and> \<not> list_ex is_Connect (caught e @ nm_events c r1 r2)"
    if h: "(\<not> cohExists c \<or> cs1) \<and> connect_try n w c cs tr = (tr1, cs1, Raised e)"
  proof -
    from h have t: "connect_try n w c cs tr = (tr1, cs1, Raised e)" and f: "\<not> cohExists c \<or> cs1"
      by blast+
    from connect_loop_fallback [OF t f] obtain r1 r2 where
      l: "connect_loop (Suc n) w c True cs tr
          = (tr1 @ caught e @ nm_events c r1 r2,
             if r1 = None \<and> r2 = None then Exited 0 else Exited 2)"
      by blast
    have k: "length (filter is_NmConnect (caught e @ nm_events c r1 r2)) = 1"
      "\<not> list_ex is_Connect (caught e @ nm_events c r1 r2)"
      by (simp_all add: caught_def nm_events_def split: option.splits)
    from l k show ?thesis by blast
  qed
  show ?thesis
    using a main_fallback_final [of n w] fallback_final_once [OF main_fallback_final [of n w]]
    by blast
qed

theorem fallback_once_witness:
  "\<not> cohExists cfg_plain
   \<and> connect_try (Suc 0) world_refused cfg_plain False
         (startup_events @ [Print ''Shutdown: Coherence cluster does not exist''])
       = ((startup_events @ [Print ''Shutdown: Coherence cluster does not exist''])
            @ connecting cfg_plain (Some (Exn ''refused'')), False, Raised (Exn ''refused''))
   \<and> (\<exists>r1 r2. connect_loop (Suc (Suc 0)) world_refused cfg_plain True False
                   (startup_events @ [Print ''Shutdown: Coherence cluster does not exist''])
                 = (((startup_events @ [Print ''Shutdown: Coherence cluster does not exist''])
                      @ connecting cfg_plain (Some (Exn ''refused'')))
                      @ caught (Exn ''refused'') @ nm_events cfg_plain r1 r2,
                    if r1 = None \<and> r2 = None then Exited 0 else Exited 2)
               \<and> length (filter is_NmConnect (caught (Exn ''refused'') @ nm_events cfg_plain r1 r2)) = 1
               \<and> \<not> list_ex is_Connect (caught (Exn ''refused'') @ nm_events cfg_plain r1 r2))
   \<and> fallback_final (fst (main (Suc 0) world_refused))
   \<and> length (filter is_NmConnect (fst (main (Suc 0) world_refused))) \<le> 1
   \<and> connect_try (Suc (Suc 0)) world_stuck cfg_admin False
         (startup_events @ [Print ''Shutdown: Coherence cluster exists''])
       = ((startup_events @ [Print ''Shutdown: Coherence cluster exists''])
            @ connected cfg_admin
            @ [Print ''Shutdown: getting all service Coherence MBeans'',
               DomainRuntime None,
               QueryMBeans (Inr [''s1'']),
               Print ''Shutdown: Coherence service bean count 1'',
               Print ''Shutdown: checking Coherence service s1'',
               GetAttribute ''s1'' (Inr None),
               Print ''Shutdown: None returned for Coherence HAStatus'',
               Print SAFE_MSG]
            @ calling cfg_admin @ [shutdown_call cfg_admin 30 (Some (Exn ''stuck''))],
          True, Raised (Exn ''stuck''))
   \<and> (\<exists>r1 r2. connect_loop (Suc (Suc (Suc 0))) world_stuck cfg_admin True False
                   (startup_events @ [Print ''Shutdown: Coherence cluster exists''])
                 = (((startup_events @ [Print ''Shutdown: Coherence cluster exists''])
                      @ connected cfg_admin
                      @ [Print ''Shutdown: getting all service Coherence MBeans'',
                         DomainRuntime None,
                         QueryMBeans (Inr [''s1'']),
                         Print ''Shutdown: Coherence service bean count 1'',
                         Print ''Shutdown: checking Coherence service s1'',
                         GetAttribute ''s1'' (Inr None),
                         Print ''Shutdown: None returned for Coherence HAStatus'',
                         Print SAFE_MSG]
                      @ calling cfg_admin @ [shutdown_call cfg_admin 30 (Some (Exn ''stuck''))])
                      @ caught (Exn ''stuck'') @ nm_events cfg_admin r1 r2,
                    if r1 = None \<and> r2 = None then Exited 0 else Exited 2)
               \<and> length (filter is_NmConnect (caught (Exn ''stuck'') @ nm_events cfg_admin r1 r2)) = 1
               \<and> \<not> list_ex is_Connect (caught (Exn ''stuck'') @ nm_events cfg_admin r1 r2))"
proof -
  have h1: "\<not> cohExists cfg_plain" by (simp add: cfg_plain_def)
  have t1: "connect_try (Suc 0) world_refused cfg_plain False
         (startup_events @ [Print ''Shutdown: Coherence cluster does not exist''])
       = ((startup_events @ [Print ''Shutdown: Coherence cluster does not exist''])
            @ connecting cfg_plain (Some (Exn ''refused'')), False, Raised (Exn ''refused''))"
    by (simp add: connect_try_def connecting_def world_refused_def Let_def)
  have t2: "connect_try (Suc (Suc 0)) world_stuck cfg_admin False
         (startup_events @ [Print ''Shutdown: Coherence cluster exists''])
       = ((startup_events @ [Print ''Shutdown: Coherence cluster exists''])
            @ connected cfg_admin
            @ [Print ''Shutdown: getting all service Coherence MBeans'',
               DomainRuntime None,
               QueryMBeans (Inr [''s1'']),
               Print ''Shutdown: Coherence service bean count 1'',
               Print ''Shutdown: checking Coherence service s1'',
               GetAttribute ''s1'' (Inr None),
               Print ''Shutdown: None returned for Coherence HAStatus'',
               Print SAFE_MSG]
            @ calling cfg_admin @ [shutdown_call cfg_admin 30 (Some (Exn ''stuck''))],
          True, Raised (Exn ''stuck''))"
    by code_simp
  note R1 = fallback_once [where c = cfg_plain and ?cs1.0 = False and n = "Suc 0"
        and w = world_refused and cs = False
        and tr = "startup_events @ [Print ''Shutdown: Coherence cluster does not exist'']"
        and ?tr1.0 = "(startup_events @ [Print ''Shutdown: Coherence cluster does not exist''])
            @ connecting cfg_plain (Some (Exn ''refused''))"
        and e = "Exn ''refused''"]
  note R2 = fallback_once [where c = cfg_admin and ?cs1.0 = True and n = "Suc (Suc 0)"
        and w = world_stuck and cs = False
        and tr = "startup_events @ [Print ''Shutdown: Coherence cluster exists'']"
        and ?tr1.0 = "(startup_events @ [Print ''Shutdown: Coherence cluster exists''])
            @ connected cfg_admin
            @ [Print ''Shutdown: getting all service Coherence MBeans'',
               DomainRuntime None,
               QueryMBeans (Inr [''s1'']),
               Print ''Shutdown: Coherence service bean count 1'',
               Print ''Shutdown: checking Coherence service s1'',
               GetAttribute ''s1'' (Inr None),
               Print ''Shutdown: None returned for Coherence HAStatus'',
               Print SAFE_MSG]
            @ calling cfg_admin @ [shutdown_call cfg_admin 30 (Some (Exn ''stuck''))]"
        and e = "Exn ''stuck''"]
  note a1 = R1 [THEN conjunct1, THEN mp, OF conjI [OF disjI1 [OF h1] t1]]
  note m1 = R1 [THEN conjunct2, THEN conjunct1]
  note m2 = R1 [THEN conjunct2, THEN conjunct2]
  note a2 = R2 [THEN conjunct1, THEN mp, OF conjI [OF disjI2 [OF TrueI] t2]]
  show ?thesis
    by (intro conjI) (fact h1 t1 a1 m1 m2 t2 a2)+
qed

subsection \<open>The pass after which the safety wait returns\<close>

lemma polled_safe_step:
  "list_all (polls_service b) xs \<Longrightarrow> polled_safe b (tr @ xs) tr' \<Longrightarrow> polled_safe b tr tr'"
proof -
  assume p: "list_all (polls_service b) xs" and a: "polled_safe b (tr @ xs) tr'"
  then obtain es where es: "tr' = (tr @ xs) @ es" "list_all (polls_service b) es"
      "\<forall>s. safe_obs (foldl (observe b) s es)"
    by (auto simp: polled_safe_def)
  have "\<forall>s. safe_obs (foldl (observe b) s (xs @ es))"
    using es(3) by simp
  with es(1,2) p show ?thesis
    unfolding polled_safe_def by (intro exI [of _ "xs @ es"]) simp
qed

lemma service_loop_Val:
  "service_loop n w b tr = (tr', Val ()) \<Longrightarrow> polled_safe b tr tr'"
proof (induction n arbitrary: tr)
  case 0
  then show ?case by simp
next
  case (Suc n)
  show ?case
  proof (cases "mbs_getAttribute w tr b")
    case (Inl e)
    let ?xs = "[GetAttribute b (Inl e),
               Print ''Shutdown: An exception occurred getting Coherence MBeans, staying in loop checking for safe'',
               Traceback, DumpStack, Sleep 10]"
    from Inl Suc.prems have "service_loop n w b (tr @ ?xs) = (tr', Val ())" by simp
    from Suc.IH [OF this] show ?thesis
      by (rule polled_safe_step [rotated]) simp
  next
    case (Inr r)
    show ?thesis
    proof (cases r)
      case None
      with Inr Suc.prems have "tr' = tr @ [GetAttribute b (Inr None),
                 Print ''Shutdown: None returned for Coherence HAStatus'']"
        by simp
      then show ?thesis
        unfolding polled_safe_def
        by (intro exI [of _ "[GetAttribute b (Inr None),
                 Print ''Shutdown: None returned for Coherence HAStatus'']"]) simp
    next
      case (Some status)
      show ?thesis
      proof (cases "status = ''ENDANGERED''")
        case True
        let ?xs = "[GetAttribute b (Inr (Some status)),
                    Print (''Shutdown: Coherence HAStatus is '' @ status),
                    Print ''Shutdown: Waiting until it is safe to shutdown Coherence server ...'',
                    Sleep 5]"
        from Inr Some True Suc.prems have "service_loop n w b (tr @ ?xs) = (tr', Val ())"
          by (simp add: Let_def)
        from Suc.IH [OF this] show ?thesis
          by (rule polled_safe_step [rotated]) simp
      next
        case False
        with Inr Some Suc.prems have "tr' = tr @ [GetAttribute b (Inr (Some status)),
                    Print (''Shutdown: Coherence HAStatus is '' @ status)]"
          by (simp add: Let_def)
        with False show ?thesis
          unfolding polled_safe_def
          by (intro exI [of _ "[GetAttribute b (Inr (Some status)),
                    Print (''Shutdown: Coherence HAStatus is '' @ status)]"]) simp
      qed
    qed
  qed
qed

lemma waitUntilServiceSafeToShutdown_Val:
  "waitUntilServiceSafeToShutdown n w b tr = (tr', Val ()) \<Longrightarrow> polled_safe b tr tr'"
  unfolding waitUntilServiceSafeToShutdown_def
  by (drule service_loop_Val) (rule polled_safe_step [rotated], assumption, simp)

lemma other_service_unchanged:
  "list_all (polls_service b) es \<Longrightarrow> b' \<noteq> b \<Longrightarrow> foldl (observe b') s es = s"
proof (induction es arbitrary: s)
  case Nil
  show ?case by simp
next
  case (Cons x es)
  then show ?case by (cases x) auto
qed

lemma service_polls_no_enumeration:
  "list_all (polls_service b) es \<Longrightarrow> \<not> list_ex is_enumeration es"
proof (induction es)
  case Nil
  show ?case by simp
next
  case (Cons x es)
  then show ?case by (cases x) auto
qed

lemma for_serviceBean_Val:
  "for_serviceBean n w beans tr = (tr', Val ()) \<Longrightarrow> pass_safe beans tr tr'"
proof (induction beans arbitrary: tr)
  case Nil
  then show ?case by (simp add: pass_safe_def)
next
  case (Cons b bs)
  obtain tr1 o1 where r: "waitUntilServiceSafeToShutdown n w b tr = (tr1, o1)"
    by (cases "waitUntilServiceSafeToShutdown n w b tr")
  with Cons.prems have o1: "o1 = Val ()" and rest: "for_serviceBean n w bs tr1 = (tr', Val ())"
    by (cases o1; simp)+
  from waitUntilServiceSafeToShutdown_Val [OF r [unfolded o1]]
  obtain es1 where es1: "tr1 = tr @ es1" "list_all (polls_service b) es1"
      "\<forall>s. safe_obs (foldl (observe b) s es1)"
    by (auto simp: polled_safe_def)
  from Cons.IH [OF rest]
  obtain es2 where es2: "tr' = tr1 @ es2" "\<not> list_ex is_enumeration es2"
      "\<forall>b' s. b' \<in> set bs \<or> safe_obs s \<longrightarrow> safe_obs (foldl (observe b') s es2)"
    by (auto simp: pass_safe_def)
  have keep: "safe_obs (foldl (observe b') s (es1 @ es2))"
    if h: "b' \<in> set (b # bs) \<or> safe_obs s" for b' s
  proof (cases "b' \<in> set bs")
    case True
    with es2(3) show ?thesis by simp
  next
    case False
    have "safe_obs (foldl (observe b') s es1)"
    proof (cases "b' = b")
      case True
      with es1(3) show ?thesis by simp
    next
      case nb: False
      with h False have "safe_obs s" by simp
      with other_service_unchanged [OF es1(2) nb, of s] show ?thesis by simp
    qed
    with es2(3) show ?thesis by simp
  qed
  have "\<not> list_ex is_enumeration (es1 @ es2)"
    using service_polls_no_enumeration [OF es1(2)] es2(2) by simp
  with es1(1) es2(1) keep show ?case
    unfolding pass_safe_def by (intro exI [of _ "es1 @ es2"]) simp
qed

lemma after_safe_pass_step:
  "list_all empty_or_failed xs \<Longrightarrow> after_safe_pass (tr @ xs) tr' \<Longrightarrow> after_safe_pass tr tr'"
proof -
  assume p: "list_all empty_or_failed xs" and a: "after_safe_pass (tr @ xs) tr'"
  then obtain pre beans polls where
    h: "tr' = (tr @ xs) @ pre @ QueryMBeans (Inr beans) # polls @ [Print SAFE_MSG]"
       "list_all empty_or_failed pre" "\<not> list_ex is_enumeration polls" "beans \<noteq> []"
       "list_all (\<lambda>b. safe_obs (last_obs b polls)) beans"
    unfolding after_safe_pass_def by blast
  from h(1) have "tr' = tr @ (xs @ pre) @ QueryMBeans (Inr beans) # polls @ [Print SAFE_MSG]"
    by simp
  moreover have "list_all empty_or_failed (xs @ pre)" using p h(2) by simp
  ultimately show ?thesis
    unfolding after_safe_pass_def using h(3,4,5) by blast
qed

lemma coherence_loop_Val:
  "coherence_loop n w ws tr = (tr', Val ()) \<Longrightarrow> after_safe_pass tr tr'"
proof (induction n arbitrary: tr ws)
  case 0
  then show ?case by simp
next
  case (Suc n)
  show ?case
  proof (cases "mbs_queryMBeans w tr")
    case (Inl e)
    with Suc.prems have "coherence_loop n w ws (tr @ QueryMBeans (Inl e) # retrying) = (tr', Val ())"
      by simp
    from Suc.IH [OF this] show ?thesis
      by (rule after_safe_pass_step [rotated]) (simp add: retrying_def)
  next
    case (Inr beans)
    show ?thesis
    proof (cases "beans = []")
      case True
      let ?xs = "QueryMBeans (Inr beans) # (if ws then [Print ''Shutdown: Waiting until Coherence MBeans available... '']
                else []) @ [Sleep 1]"
      from Inr True Suc.prems have "coherence_loop n w False (tr @ ?xs) = (tr', Val ())"
        by (simp add: Let_def)
      from Suc.IH [OF this] show ?thesis
        by (rule after_safe_pass_step [rotated]) (simp add: True)
    next
      case False
      let ?c = "Print (''Shutdown: Coherence service bean count '' @ str_nat (length beans))"
      obtain tr2 o2 where f: "for_serviceBean n w beans (tr @ [QueryMBeans (Inr beans), ?c]) = (tr2, o2)"
        by (cases "for_serviceBean n w beans (tr @ [QueryMBeans (Inr beans), ?c])")
      have nr: "o2 \<noteq> Raised e" for e
        using for_serviceBean_outcome [of n w beans "tr @ [QueryMBeans (Inr beans), ?c]"] f
        by (metis snd_conv)
      have o2: "o2 = Val ()" and t: "tr' = tr2 @ [Print SAFE_MSG]"
        using Inr False f Suc.prems nr by (cases o2; simp add: Let_def)+
      from for_serviceBean_Val [OF f [unfolded o2]]
      obtain es where es: "tr2 = (tr @ [QueryMBeans (Inr beans), ?c]) @ es"
          "\<not> list_ex is_enumeration es"
          "\<forall>b s. b \<in> set beans \<or> safe_obs s \<longrightarrow> safe_obs (foldl (observe b) s es)"
        by (auto simp: pass_safe_def)
      have "list_all (\<lambda>b. safe_obs (last_obs b (?c # es))) beans"
        using es(3) by (simp add: list_all_iff last_obs_def)
      moreover have "\<not> list_ex is_enumeration (?c # es)" using es(2) by simp
      moreover have "tr' = tr @ [] @ QueryMBeans (Inr beans) # (?c # es) @ [Print SAFE_MSG]"
        using t es(1) by simp
      ultimately show ?thesis
        unfolding after_safe_pass_def using False
        by (intro exI [of _ "[]"] exI [of _ beans] exI [of _ "?c # es"]) simp
    qed
  qed
qed

lemma waitUntilCoherenceSafe_Val:
  "waitUntilCoherenceSafe n w tr = (tr', Val ()) \<Longrightarrow> after_safe_pass tr tr'"
proof -
  assume a: "waitUntilCoherenceSafe n w tr = (tr', Val ())"
  let ?t = "tr @ [Print ''Shutdown: getting all service Coherence MBeans'']"
  show ?thesis
  proof (cases "wlst_domainRuntime w ?t")
    case (Some e)
    with a show ?thesis by (simp add: waitUntilCoherenceSafe_def Let_def)
  next
    case None
    with a have "coherence_loop n w True (tr @ [Print ''Shutdown: getting all service Coherence MBeans'',
        DomainRuntime None]) = (tr', Val ())"
      by (simp add: waitUntilCoherenceSafe_def Let_def)
    from coherence_loop_Val [OF this] show ?thesis
      by (rule after_safe_pass_step [rotated]) simp
  qed
qed

lemma service_loop_settles:
  "settles_by k w \<Longrightarrow> k - length tr < n \<Longrightarrow> snd (service_loop n w b tr) = Val ()"
proof (induction n arbitrary: tr)
  case 0
  then show ?case by simp
next
  case (Suc n)
  show ?case
  proof (cases "k \<le> length tr")
    case True
    with Suc.prems(1) have "not_endangered (mbs_getAttribute w tr b)"
      by (simp add: settles_by_def)
    then show ?thesis
      by (cases "mbs_getAttribute w tr b" rule: not_endangered.cases) (auto simp: Let_def)
  next
    case False
    have step: "k - length (tr @ xs) < n" if "xs \<noteq> []" for xs :: trace
    proof (cases xs)
      case Nil
      with that show ?thesis by simp
    next
      case (Cons x ys)
      with False Suc.prems(2) show ?thesis by (simp; arith)
    qed
    show ?thesis
    proof (cases "mbs_getAttribute w tr b" rule: not_endangered.cases)
      case (1 e)
      with Suc.IH [OF Suc.prems(1) step] show ?thesis by simp
    next
      case 2
      then show ?thesis by simp
    next
      case (3 status)
      show ?thesis
      proof (cases "status = ''ENDANGERED''")
        case True
        with 3 Suc.IH [OF Suc.prems(1) step,
            of "[GetAttribute b (Inr (Some status)),
                 Print (''Shutdown: Coherence HAStatus is '' @ status),
                 Print ''Shutdown: Waiting until it is safe to shutdown Coherence server ...'',
                 Sleep 5]"]
        show ?thesis by (simp add: Let_def)
      next
        case False
        with 3 show ?thesis by (simp add: Let_def)
      qed
    qed
  qed
qed

lemma waitUntilServiceSafeToShutdown_settles:
  "settles_by k w \<Longrightarrow> k - length tr < n
   \<Longrightarrow> snd (waitUntilServiceSafeToShutdown n w b tr) = Val ()"
proof -
  assume s: "settles_by k w" and n: "k - length tr < n"
  from n have "k - length (tr @ [Print (''Shutdown: checking Coherence service '' @ b)]) < n"
    by (simp del: append.simps; arith)
  from service_loop_settles [OF s this] show ?thesis
    unfolding waitUntilServiceSafeToShutdown_def .
qed

lemma emits_length: "emits P tr tr' \<Longrightarrow> length tr \<le> length tr'"
  by (auto simp: emits_def)

lemma for_serviceBean_settles:
  "settles_by k w \<Longrightarrow> k - length tr < n \<Longrightarrow> snd (for_serviceBean n w beans tr) = Val ()"
proof (induction beans arbitrary: tr)
  case Nil
  show ?case by simp
next
  case (Cons b bs)
  obtain tr1 where r: "waitUntilServiceSafeToShutdown n w b tr = (tr1, Val ())"
    using waitUntilServiceSafeToShutdown_settles [OF Cons.prems, of b]
    by (cases "waitUntilServiceSafeToShutdown n w b tr") simp
  have "length tr \<le> length tr1"
    using emits_length [OF waitUntilServiceSafeToShutdown_emits [of tr n w b]] r by simp
  with Cons.prems(2) have "k - length tr1 < n" by simp
  from Cons.IH [OF Cons.prems(1) this] show ?case by (simp add: r)
qed

lemma coherence_loop_settles:
  "settles_by k w \<Longrightarrow> Suc (k - length tr) < n \<Longrightarrow> snd (coherence_loop n w ws tr) = Val ()"
proof (induction n arbitrary: tr ws)
  case 0
  then show ?case by simp
next
  case (Suc n)
  have late: "\<exists>b bs. mbs_queryMBeans w tr = Inr (b # bs)" if "k \<le> length tr"
    using that Suc.prems(1) by (simp add: settles_by_def)
  have step: "Suc (k - length (tr @ xs)) < n" if "xs \<noteq> []" "\<not> k \<le> length tr" for xs :: trace
  proof (cases xs)
    case Nil
    with that(1) show ?thesis by simp
  next
    case (Cons x ys)
    with that(2) Suc.prems(2) show ?thesis by (simp; arith)
  qed
  show ?case
  proof (cases "mbs_queryMBeans w tr")
    case (Inl e)
    with late have "\<not> k \<le> length tr" by auto
    from Suc.IH [OF Suc.prems(1) step [OF _ this], of "QueryMBeans (Inl e) # retrying" ws]
    show ?thesis using Inl by simp
  next
    case (Inr beans)
    show ?thesis
    proof (cases "beans = []")
      case True
      with Inr late have "\<not> k \<le> length tr" by auto
      from Suc.IH [OF Suc.prems(1) step [OF _ this],
          of "QueryMBeans (Inr beans) # (if ws then [Print ''Shutdown: Waiting until Coherence MBeans available... '']
                else []) @ [Sleep 1]" False]
      show ?thesis using Inr True by (simp add: Let_def)
    next
      case False
      let ?t = "tr @ [QueryMBeans (Inr beans),
                      Print (''Shutdown: Coherence service bean count '' @ str_nat (length beans))]"
      have "k - length ?t < n" using Suc.prems(2) by simp
      from for_serviceBean_settles [OF Suc.prems(1) this, of beans]
      obtain tr2 where "for_serviceBean n w beans ?t = (tr2, Val ())"
        by (cases "for_serviceBean n w beans ?t") simp
      with Inr False show ?thesis by (simp add: Let_def)
    qed
  qed
qed

lemma waitUntilCoherenceSafe_settles:
  "settles_by k w
   \<Longrightarrow> wlst_domainRuntime w (tr @ [Print ''Shutdown: getting all service Coherence MBeans'']) = None
   \<Longrightarrow> Suc (k - length tr) < n
   \<Longrightarrow> snd (waitUntilCoherenceSafe n w tr) = Val ()"
proof -
  assume s: "settles_by k w"
    and d: "wlst_domainRuntime w (tr @ [Print ''Shutdown: getting all service Coherence MBeans'']) = None"
    and n: "Suc (k - length tr) < n"
  have "Suc (k - length (tr @ [Print ''Shutdown: getting all service Coherence MBeans'',
           DomainRuntime None])) < n"
    using n by simp
  from coherence_loop_settles [OF s this, of True] d show ?thesis
    by (simp add: waitUntilCoherenceSafe_def Let_def)
qed

lemma service_loop_never_safe:
  "never_safe w \<Longrightarrow> snd (service_loop n w b tr) = OutOfFuel"
proof (induction n arbitrary: tr)
  case 0
  show ?case by simp
next
  case (Suc n)
  from Suc.prems have "mbs_getAttribute w tr b = Inr (Some ''ENDANGERED'')"
    by (simp add: never_safe_def)
  with Suc.IH [OF Suc.prems] show ?case by (simp add: Let_def)
qed

lemma for_serviceBean_never_safe:
  "never_safe w \<Longrightarrow> snd (for_serviceBean n w (b # bs) tr) = OutOfFuel"
proof -
  assume a: "never_safe w"
  obtain tr1 where "waitUntilServiceSafeToShutdown n w b tr = (tr1, OutOfFuel)"
    using service_loop_never_safe [OF a, of n b
        "tr @ [Print (''Shutdown: checking Coherence service '' @ b)]"]
    by (cases "waitUntilServiceSafeToShutdown n w b tr")
       (simp add: waitUntilServiceSafeToShutdown_def)
  then show ?thesis by simp
qed

lemma coherence_loop_never_safe:
  "never_safe w \<Longrightarrow> snd (coherence_loop n w ws tr) = OutOfFuel"
proof (cases n)
  case 0
  then show ?thesis by simp
next
  case (Suc m)
  assume a: "never_safe w"
  then obtain b bs where q: "mbs_queryMBeans w tr = Inr (b # bs)"
    unfolding never_safe_def by blast
  let ?t = "tr @ [QueryMBeans (Inr (b # bs)),
                  Print (''Shutdown: Coherence service bean count '' @ str_nat (length (b # bs)))]"
  obtain tr2 where "for_serviceBean m w (b # bs) ?t = (tr2, OutOfFuel)"
    using for_serviceBean_never_safe [OF a, of m b bs ?t]
    by (cases "for_serviceBean m w (b # bs) ?t") simp
  with q Suc show ?thesis by (simp add: Let_def del: for_serviceBean.simps)
qed

lemma waitUntilCoherenceSafe_never_safe:
  "never_safe w \<Longrightarrow> snd (waitUntilCoherenceSafe n w tr) = OutOfFuel"
proof -
  assume a: "never_safe w"
  then have "wlst_domainRuntime w (tr @ [Print ''Shutdown: getting all service Coherence MBeans'']) = None"
    by (simp add: never_safe_def)
  with coherence_loop_never_safe [OF a] show ?thesis
    by (simp add: waitUntilCoherenceSafe_def Let_def)
qed

text \<open>
  C2. When \<open>waitUntilCoherenceSafe\<close> returns, its trace ends with one enumeration that
  found services, the polls of that pass and the message that Coherence is safe; every
  enumeration before it raised or found nothing, no enumeration follows it, and the most
  recent health observation of every enumerated service in the pass is \<open>None\<close> or a
  status other than \<open>ENDANGERED\<close>. It does return, in such a pass, when from some moment
  on every enumeration finds a service and every health query answers a status other
  than \<open>ENDANGERED\<close>. And when every health query answers \<open>ENDANGERED\<close> it is still running
  after any number \<open>n\<close> of iterations: nothing inside the function ends the wait.
\<close>

theorem returns_after_safe_pass:
  "(waitUntilCoherenceSafe n w tr = (tr', Val ()) \<longrightarrow> after_safe_pass tr tr')
   \<and> (settles_by k w
        \<and> wlst_domainRuntime w (tr @ [Print ''Shutdown: getting all service Coherence MBeans'']) = None
        \<and> Suc (k - length tr) < n \<longrightarrow>
      (\<exists>tr''. waitUntilCoherenceSafe n w tr = (tr'', Val ()) \<and> after_safe_pass tr tr''))
   \<and> (never_safe w \<longrightarrow> snd (waitUntilCoherenceSafe n w tr) = OutOfFuel)"
proof -
  have a: "after_safe_pass tr tr'" if "waitUntilCoherenceSafe n w tr = (tr', Val ())"
    using waitUntilCoherenceSafe_Val [OF that] .
  have b: "\<exists>tr''. waitUntilCoherenceSafe n w tr = (tr'', Val ()) \<and> after_safe_pass tr tr''"
    if h: "settles_by k w
        \<and> wlst_domainRuntime w (tr @ [Print ''Shutdown: getting all service Coherence MBeans'']) = None
        \<and> Suc (k - length tr) < n"
  proof -
    from h have "snd (waitUntilCoherenceSafe n w tr) = Val ()"
      using waitUntilCoherenceSafe_settles [of k w tr n] by blast
    then obtain tr'' where r: "waitUntilCoherenceSafe n w tr = (tr'', Val ())"
      by (cases "waitUntilCoherenceSafe n w tr") simp
    with waitUntilCoherenceSafe_Val [OF r] show ?thesis by blast
  qed
  have c: "snd (waitUntilCoherenceSafe n w tr) = OutOfFuel" if "never_safe w"
    using waitUntilCoherenceSafe_never_safe [OF that] .
  show ?thesis using a b c by blast
qed

theorem returns_after_safe_pass_witness:
  "waitUntilCoherenceSafe 12 world_settling [] = (settling_trace, Val ())
   \<and> after_safe_pass [] settling_trace
   \<and> settles_by 10 world_settling
   \<and> wlst_domainRuntime world_settling
       ([] @ [Print ''Shutdown: getting all service Coherence MBeans'']) = None
   \<and> Suc (10 - length ([] :: trace)) < 12
   \<and> (\<exists>tr''. waitUntilCoherenceSafe 12 world_settling [] = (tr'', Val ())
        \<and> after_safe_pass [] tr'')
   \<and> never_safe world_endangered
   \<and> snd (waitUntilCoherenceSafe 12 world_endangered []) = OutOfFuel"
proof -
  have r: "waitUntilCoherenceSafe 12 world_settling [] = (settling_trace, Val ())"
    by code_simp
  have s: "settles_by 10 world_settling"
    by (simp add: settles_by_def world_settling_def)
  have d: "wlst_domainRuntime world_settling
       ([] @ [Print ''Shutdown: getting all service Coherence MBeans'']) = None"
    by (simp add: world_settling_def world0_def)
  have l: "Suc (10 - length ([] :: trace)) < 12" by simp
  have e: "never_safe world_endangered"
    by (simp add: never_safe_def world_endangered_def world0_def)
  note R = returns_after_safe_pass [where n = 12 and w = world_settling and tr = "[]"
        and tr' = settling_trace and k = 10]
  note E = returns_after_safe_pass [where n = 12 and w = world_endangered and tr = "[]"
        and tr' = "[]" and k = 0]
  note a = R [THEN conjunct1, THEN mp, OF r]
  note b = R [THEN conjunct2, THEN conjunct1, THEN mp, OF conjI [OF s conjI [OF d l]]]
  note c = E [THEN conjunct2, THEN conjunct2, THEN mp, OF e]
  show ?thesis
    by (intro conjI) (fact r a s d l b e c)+
qed

end
